theory Spec2Isabelle
  imports Main "HOL-Library.Word" "HOL-Library.Monad_Syntax"
begin

unbundle bit_operations_syntax

section \<open>Bytes, memory cells and the input stream\<close>

text \<open>
  \<^verbatim>\<open>mboot.c\<close> works on \<^verbatim>\<open>unsigned char\<close> buffers obtained from \<^verbatim>\<open>malloc\<close> (or
  declared on the stack) and never initialises them.  A memory cell is therefore an
  optional byte: \<open>None\<close> is a cell that was never written, whose content C leaves
  indeterminate.  A run whose control flow or arithmetic reads such a cell has no result
  determined by its input; the model returns \<open>None\<close> for it (the outer \<open>option\<close> of
  \<open>check_byte\<close>, \<open>unpack\<close> and \<open>pack\<close>), as it does for a write outside an
  allocated buffer.  Copying a cell copies its indeterminacy.
\<close>

type_synonym u8 = "8 word"
type_synonym cell = "u8 option"

text \<open>
  An open \<^verbatim>\<open>FILE *\<close> in read mode: the bytes of the file and the position
  \<^verbatim>\<open>ftell\<close> reports.
\<close>

record stream =
  data :: "u8 list"
  pos :: nat

definition ftell :: "stream \<Rightarrow> int" where
  "ftell f = int (pos f)"

text \<open>
  \<^verbatim>\<open>fseek(f, off, SEEK_CUR)\<close>: the position moves by \<open>off\<close>; it may pass the end of
  the file, but a move before the start fails (\<^verbatim>\<open>EINVAL\<close>) and leaves the position
  where it was.  The source never looks at the return value.
\<close>

definition fseek_cur :: "int \<Rightarrow> stream \<Rightarrow> stream" where
  "fseek_cur off f =
     (if int (pos f) + off < 0 then f else f\<lparr>pos := nat (int (pos f) + off)\<rparr>)"

text \<open>
  \<^verbatim>\<open>fread(buf, n, 1, f)\<close>: the bytes still available, at most \<open>n\<close>, are stored at
  the start of \<open>buf\<close> and the position advances by their number; the cells of
  \<open>buf\<close> past them keep what they held.  The source discards the return value
  (\<^verbatim>\<open>if (fread(...)) {};\<close>), so a short read goes unnoticed.  The function returns the
  bytes that arrived.
\<close>

definition fread :: "nat \<Rightarrow> stream \<Rightarrow> u8 list \<times> stream" where
  "fread n f =
     (let got = take n (drop (pos f) (data f))
      in (got, f\<lparr>pos := pos f + length got\<rparr>))"

text \<open>
  A buffer of \<open>n\<close> uninitialised cells after a read that delivered \<open>got\<close>.
\<close>

definition filled :: "nat \<Rightarrow> u8 list \<Rightarrow> cell list" where
  "filled n got = map Some got @ replicate (n - length got) None"

section \<open>The content probe\<close>

text \<open>
  \<^verbatim>\<open>isalnum\<close> belongs to the C library, not to this program.  The standard fixes only
  that it returns zero for a byte that is not alphanumeric and some non-zero \<^verbatim>\<open>int\<close>
  otherwise; \<open>check_byte\<close> compares that \<^verbatim>\<open>int\<close> with \<open>min\<close> and with the window
  size, so its value matters.  The library function is a parameter of the model.

  \<open>isalnum_bsd\<close> is the table-driven implementation of the BSD C libraries, from
  which Android's bionic took it (\<^verbatim>\<open>_ctype_[c + 1] & (_U | _L | _N)\<close> with \<^verbatim>\<open>_U = 1\<close>,
  \<^verbatim>\<open>_L = 2\<close>, \<^verbatim>\<open>_N = 4\<close>) in the C locale; it instantiates the parameter in the
  concrete runs below.
\<close>

definition isalnum_bsd :: "u8 \<Rightarrow> int" where
  "isalnum_bsd c =
     (if 0x41 \<le> c \<and> c \<le> 0x5A then 1
      else if 0x61 \<le> c \<and> c \<le> 0x7A then 2
      else if 0x30 \<le> c \<and> c \<le> 0x39 then 4
      else 0)"

text \<open>
  \<^verbatim>\<open>check_byte(f, size, min)\<close> (\<open>sz\<close> and \<open>mn\<close> here), lines 45--73.  The one-cell buffer \<^verbatim>\<open>skip\<close> and the
  buffer \<^verbatim>\<open>tmp\<close> are fresh from \<^verbatim>\<open>malloc\<close>: when the stream has no byte left for
  \<^verbatim>\<open>skip[0]\<close> or for \<^verbatim>\<open>tmp[0]\<close>, the test reads an indeterminate cell and the
  result is \<open>None\<close>.  Otherwise the result is the returned \<^verbatim>\<open>int\<close> and the stream
  as the call leaves it.
\<close>

definition check_byte :: "(u8 \<Rightarrow> int) \<Rightarrow> stream \<Rightarrow> int \<Rightarrow> int \<Rightarrow> (int \<times> stream) option" where
  "check_byte isalnum f sz mn =
     (let origsize = sz in
      case (if sz > 1
            then (case fread 1 f of
                    ([], f1) \<Rightarrow> None
                  | (b # _, f1) \<Rightarrow>
                      if b = 0 then Some (sz - 1, f1)
                      else Some (sz, fseek_cur (- 1) f1))
            else Some (sz, f)) of
        None \<Rightarrow> None
      | Some (sz', f2) \<Rightarrow>
          (case fread (nat sz') f2 of
             ([], f3) \<Rightarrow> None
           | (t # _, f3) \<Rightarrow>
               let f4 = fseek_cur (- origsize) f3;
                   bytes = isalnum t
               in Some (if bytes > mn \<and> bytes < origsize then 1 else 0, f4)))"

section \<open>The Segment Locator\<close>

text \<open>
  The files a run writes into \<^verbatim>\<open>directory\<close>, in the order written: name and
  content.  A cell of a content is \<open>None\<close> where \<^verbatim>\<open>fwrite\<close> was handed a cell
  that no read had filled.
\<close>

type_synonym artifacts = "(string \<times> cell list) list"

text \<open>The diagnostics on \<^verbatim>\<open>stderr\<close> (the \<^verbatim>\<open>strerror\<close> text left out).\<close>

datatype diag =
    Cannot_open_input string
  | Cannot_open_output
  | Kernel_size_wrong
  | Ramdisk_size_wrong

text \<open>
  \<^verbatim>\<open>write_buffer(f, size, name)\<close>, lines 75--86: \<open>size\<close> cells are allocated,
  one read fills as many as the stream still has, and all \<open>size\<close> cells go to the
  file.  A negative \<^verbatim>\<open>int\<close> becomes a \<^verbatim>\<open>size_t\<close> no allocation satisfies, and the
  read through the null pointer is undefined.
\<close>

definition write_buffer :: "stream \<Rightarrow> int \<Rightarrow> string \<Rightarrow> artifacts \<Rightarrow> (stream \<times> artifacts) option" where
  "write_buffer f sz name out =
     (if sz < 0 then None
      else case fread (nat sz) f of
             (got, f') \<Rightarrow> Some (f', out @ [(name, filled (nat sz) got)]))"

text \<open>
  \<^verbatim>\<open>strlen\<close> on a buffer of cells: the number of bytes before the first NUL.  It is
  undefined when an indeterminate cell, or the end of the object, comes first.
\<close>

fun strlen :: "cell list \<Rightarrow> nat option" where
  "strlen [] = None"
| "strlen (None # cs) = None"
| "strlen (Some b # cs) = (if b = 0 then Some 0 else map_option Suc (strlen cs))"

text \<open>\<^verbatim>\<open>write_string(string, name)\<close>, lines 88--97: \<^verbatim>\<open>strlen(string)\<close> bytes are written.\<close>

definition write_string :: "cell list \<Rightarrow> string \<Rightarrow> artifacts \<Rightarrow> artifacts option" where
  "write_string string name out =
     (case strlen string of
        None \<Rightarrow> None
      | Some n \<Rightarrow> Some (out @ [(name, take n string)]))"

text \<open>
  \<^verbatim>\<open>*(uint32_t *)buffer\<close> on the little-endian hosts the tool is built for (x86, ARM
  Android), and the four bytes \<^verbatim>\<open>memcpy(dst, &v, 4)\<close> stores for a 32-bit \<open>v\<close>.
\<close>

definition uint32_le :: "cell list \<Rightarrow> nat option" where
  "uint32_le cs =
     (case cs of
        [Some b0, Some b1, Some b2, Some b3] \<Rightarrow>
          Some (unat b0 + 256 * unat b1 + 65536 * unat b2 + 16777216 * unat b3)
      | _ \<Rightarrow> None)"

definition le32 :: "nat \<Rightarrow> u8 list" where
  "le32 n = [of_nat n, of_nat (n div 256), of_nat (n div 65536), of_nat (n div 16777216)]"

text \<open>What a run of \<^verbatim>\<open>unpack\<close> leaves behind.\<close>

record unpack_run =
  ret :: int
  files :: artifacts
  stdout :: "(string \<times> int) list"
  stderr :: "diag list"

text \<open>The locals of \<^verbatim>\<open>unpack\<close> that its blocks hand on, with the output so far.\<close>

record locals =
  strm :: stream
  written :: artifacts
  printed :: "(string \<times> int) list"

text \<open>
  Lines 107--112: the header is written unless the probe at the current offset
  answers 1.
\<close>

definition unpack_hdr :: "(u8 \<Rightarrow> int) \<Rightarrow> locals \<Rightarrow> (int \<times> locals) option" where
  "unpack_hdr isalnum s =
     (case check_byte isalnum (strm s) 4 1 of
        None \<Rightarrow> None
      | Some (r, f1) \<Rightarrow>
          (case (if r = 0 then write_buffer f1 512 ''hdr'' (written s)
                 else Some (f1, written s)) of
             None \<Rightarrow> None
           | Some (f2, out) \<Rightarrow>
               let hdr_size = ftell f2
               in Some (hdr_size,
                        \<lparr>strm = f2, written = out,
                         printed = printed s @ [(''header size'', hdr_size)]\<rparr>)))"

text \<open>
  Lines 115--122: the loop over \<^verbatim>\<open>sig_deltas\<close>; each round moves the stream on by
  the next delta and stops at the first probe that answers 1.
\<close>

definition sig_deltas :: "int list" where
  "sig_deltas = [0, 480, 248, 296]"

fun sig_loop :: "(u8 \<Rightarrow> int) \<Rightarrow> int list \<Rightarrow> stream \<Rightarrow> stream option" where
  "sig_loop isalnum [] f = Some f"
| "sig_loop isalnum (d # ds) f =
     (case check_byte isalnum (fseek_cur d f) 4 1 of
        None \<Rightarrow> None
      | Some (r, f') \<Rightarrow> if r \<noteq> 0 then Some f' else sig_loop isalnum ds f')"

text \<open>Lines 114--128.\<close>

definition unpack_sig :: "(u8 \<Rightarrow> int) \<Rightarrow> int \<Rightarrow> locals \<Rightarrow> (int \<times> locals) option" where
  "unpack_sig isalnum hdr_size s =
     (case sig_loop isalnum sig_deltas (strm s) of
        None \<Rightarrow> None
      | Some f1 \<Rightarrow>
          let sig_size = ftell f1 - hdr_size
          in (case (if sig_size > 0
                    then write_buffer (fseek_cur (- sig_size) f1) sig_size ''sig'' (written s)
                    else Some (f1, written s)) of
                None \<Rightarrow> None
              | Some (f2, out) \<Rightarrow>
                  Some (sig_size,
                        \<lparr>strm = f2, written = out,
                         printed = printed s @ [(''sig size'', sig_size)]\<rparr>)))"

text \<open>
  Lines 130--133.  \<^verbatim>\<open>char *cmdline[1024]\<close> is an array of 1024 pointers, of which the
  read fills the first 1024 bytes; \<open>sizeof_ptr\<close> is 8 on a 64-bit and 4 on a 32-bit
  build, and no cell past the first 1024 is ever written.
\<close>

definition sizeof_ptr :: nat where
  "sizeof_ptr = 8"

definition unpack_cmdline :: "locals \<Rightarrow> locals option" where
  "unpack_cmdline s =
     (case fread 1024 (strm s) of
        (got, f1) \<Rightarrow>
          (case write_string (filled (1024 * sizeof_ptr) got) ''cmdline.txt'' (written s) of
             None \<Rightarrow> None
           | Some out \<Rightarrow> Some (s\<lparr>strm := f1, written := out\<rparr>)))"

text \<open>
  Lines 135--141: the two size fields are read into four-cell buffers (decoded only at
  lines 153 and 161), the next 8 bytes become the \<^verbatim>\<open>parameter\<close> file, and the stream
  skips \<open>3072 - 16\<close> bytes.
\<close>

definition unpack_info :: "locals \<Rightarrow> (cell list \<times> cell list \<times> locals) option" where
  "unpack_info s =
     (case fread 4 (strm s) of
        (kgot, f1) \<Rightarrow>
          (case fread 4 f1 of
             (rgot, f2) \<Rightarrow>
               (case write_buffer f2 8 ''parameter'' (written s) of
                  None \<Rightarrow> None
                | Some (f3, out) \<Rightarrow>
                    Some (filled 4 kgot, filled 4 rgot,
                          s\<lparr>strm := fseek_cur (3072 - 16) f3, written := out\<rparr>))))"

text \<open>Lines 143--151.\<close>

definition unpack_bootstub :: "(u8 \<Rightarrow> int) \<Rightarrow> int \<Rightarrow> int \<Rightarrow> locals \<Rightarrow> (int \<times> locals) option" where
  "unpack_bootstub isalnum hdr_size sig_size s =
     (case check_byte isalnum (fseek_cur 4096 (strm s)) 2 0 of
        None \<Rightarrow> None
      | Some (r, f1) \<Rightarrow>
          let f2 = (if r \<noteq> 0 then fseek_cur 4096 f1 else f1);
              bootstub_size = ftell f2 - hdr_size - sig_size - 4096
          in (case write_buffer (fseek_cur (- bootstub_size) f2) bootstub_size ''bootstub''
                     (written s) of
                None \<Rightarrow> None
              | Some (f3, out) \<Rightarrow>
                  Some (bootstub_size,
                        \<lparr>strm = f3, written = out,
                         printed = printed s @ [(''bootstub size'', bootstub_size)]\<rparr>)))"

text \<open>
  Lines 153--170: each size is decoded and checked just before its region is written;
  a size out of range ends the run with status 1.
\<close>

definition unpack_kernel_ramdisk :: "cell list \<Rightarrow> cell list \<Rightarrow> locals \<Rightarrow> unpack_run option" where
  "unpack_kernel_ramdisk kernel_size_buffer ramdisk_size_buffer s =
     (case uint32_le kernel_size_buffer of
        None \<Rightarrow> None
      | Some kernel_size \<Rightarrow>
          if kernel_size < 500000 \<or> kernel_size > 15000000
          then Some \<lparr>ret = 1, files = written s, stdout = printed s,
                     stderr = [Kernel_size_wrong]\<rparr>
          else
            (case write_buffer (strm s) (int kernel_size) ''kernel'' (written s) of
               None \<Rightarrow> None
             | Some (f1, out1) \<Rightarrow>
                 let printed1 = printed s @ [(''kernel size'', int kernel_size)]
                 in (case uint32_le ramdisk_size_buffer of
                       None \<Rightarrow> None
                     | Some ramdisk_size \<Rightarrow>
                         if ramdisk_size < 10000 \<or> ramdisk_size > 300000000
                         then Some \<lparr>ret = 1, files = out1, stdout = printed1,
                                    stderr = [Ramdisk_size_wrong]\<rparr>
                         else
                           (case write_buffer f1 (int ramdisk_size) ''ramdisk.cpio.gz'' out1 of
                              None \<Rightarrow> None
                            | Some (f2, out2) \<Rightarrow>
                                Some \<lparr>ret = 0, files = out2,
                                      stdout = printed1 @ [(''ramdisk size'', int ramdisk_size)],
                                      stderr = []\<rparr>))))"

text \<open>
  \<^verbatim>\<open>unpack()\<close>, lines 99--171.  The argument is the content of \<^verbatim>\<open>filename\<close>, or
  \<open>None\<close> when \<^verbatim>\<open>fopen\<close> fails.  The files in \<^verbatim>\<open>directory\<close> are taken to open
  for writing (\<^verbatim>\<open>main\<close> has checked that the directory exists).
\<close>

definition unpack :: "(u8 \<Rightarrow> int) \<Rightarrow> string \<Rightarrow> u8 list option \<Rightarrow> unpack_run option" where
  "unpack isalnum filename input =
     (case input of
        None \<Rightarrow> Some \<lparr>ret = 1, files = [], stdout = [], stderr = [Cannot_open_input filename]\<rparr>
      | Some bytes \<Rightarrow>
          (case unpack_hdr isalnum \<lparr>strm = \<lparr>data = bytes, pos = 0\<rparr>, written = [], printed = []\<rparr> of
             None \<Rightarrow> None
           | Some (hdr_size, s1) \<Rightarrow>
               (case unpack_sig isalnum hdr_size s1 of
                  None \<Rightarrow> None
                | Some (sig_size, s2) \<Rightarrow>
                    (case unpack_cmdline s2 of
                       None \<Rightarrow> None
                     | Some s3 \<Rightarrow>
                         (case unpack_info s3 of
                            None \<Rightarrow> None
                          | Some (kernel_size_buffer, ramdisk_size_buffer, s4) \<Rightarrow>
                              (case unpack_bootstub isalnum hdr_size sig_size s4 of
                                 None \<Rightarrow> None
                               | Some (bootstub_size, s5) \<Rightarrow>
                                   unpack_kernel_ramdisk kernel_size_buffer
                                     ramdisk_size_buffer s5))))))"

section \<open>The Image Assembler\<close>

text \<open>
  The files of \<^verbatim>\<open>directory\<close> that \<^verbatim>\<open>pack\<close> reads, by name; \<open>None\<close> for a name
  that \<^verbatim>\<open>fopen\<close> cannot open.
\<close>

type_synonym dir = "string \<Rightarrow> cell list option"

text \<open>
  \<^verbatim>\<open>read_file(name, &size)\<close>, lines 173--195: the inner \<open>None\<close> is the null pointer
  returned when the file does not open (\<^verbatim>\<open>*_size\<close> is then left alone); otherwise the
  whole content is returned and its length stored.  The length goes through an
  \<^verbatim>\<open>int\<close>, so at \<open>2^31\<close> bytes and beyond the allocation request is negative and
  the run undefined (outer \<open>None\<close>).  The \<^verbatim>\<open>fwrite\<close> at line 188 is on a stream opened
  for reading and writes nothing.  \<^verbatim>\<open>malloc(0)\<close> is taken to return a non-null
  pointer, as glibc and bionic do.
\<close>

definition read_file :: "dir \<Rightarrow> string \<Rightarrow> cell list option option" where
  "read_file d name =
     (case d name of
        None \<Rightarrow> Some None
      | Some content \<Rightarrow> if length content < 2 ^ 31 then Some (Some content) else None)"

text \<open>
  Lines 205--215: the required files are read in order; the first one missing ends the
  run (\<open>Inl\<close> its name) before any later file is touched.
\<close>

definition required_file :: "string list" where
  "required_file = [''cmdline.txt'', ''parameter'', ''bootstub'', ''kernel'', ''ramdisk.cpio.gz'']"

fun read_required :: "dir \<Rightarrow> string list \<Rightarrow> (string + cell list list) option" where
  "read_required d [] = Some (Inr [])"
| "read_required d (name # names) =
     (case read_file d name of
        None \<Rightarrow> None
      | Some None \<Rightarrow> Some (Inl name)
      | Some (Some x) \<Rightarrow>
          (case read_required d names of
             None \<Rightarrow> None
           | Some (Inl missing) \<Rightarrow> Some (Inl missing)
           | Some (Inr xs) \<Rightarrow> Some (Inr (x # xs))))"

text \<open>
  Unsigned 32-bit arithmetic wraps; \<open>int32\<close> is the conversion of such a value to
  \<^verbatim>\<open>int\<close>.
\<close>

definition u32 :: "nat \<Rightarrow> nat" where
  "u32 n = n mod 2 ^ 32"

definition int32 :: "nat \<Rightarrow> int" where
  "int32 n = (if n < 2 ^ 31 then int n else int n - 2 ^ 32)"

text \<open>
  \<^verbatim>\<open>malloc(n)\<close> for an \<^verbatim>\<open>int\<close> expression \<open>n\<close>: fresh cells, all indeterminate.  A
  negative \<open>n\<close> (or one whose computation overflowed \<^verbatim>\<open>int\<close>) yields no buffer, and
  the writes that follow are undefined.
\<close>

definition malloc :: "int \<Rightarrow> cell list option" where
  "malloc n = (if n < 0 \<or> n \<ge> 2 ^ 31 then None else Some (replicate (nat n) None))"

text \<open>
  \<^verbatim>\<open>memcpy(buf + off, src, length src)\<close> and \<^verbatim>\<open>memset(buf + off, c, n)\<close>: a write
  that does not lie inside the buffer is undefined.
\<close>

definition memcpy :: "cell list \<Rightarrow> nat \<Rightarrow> cell list \<Rightarrow> cell list option" where
  "memcpy buf off src =
     (if off + length src \<le> length buf
      then Some (take off buf @ src @ drop (off + length src) buf)
      else None)"

definition memset :: "cell list \<Rightarrow> nat \<Rightarrow> u8 \<Rightarrow> nat \<Rightarrow> cell list option" where
  "memset buf off c n = memcpy buf off (replicate n (Some c))"

text \<open>
  Lines 240--243: the four cells at offset 52 are read as a 32-bit value, incremented
  (with wrap-around) and stored back.  When one of them is indeterminate so is the sum,
  and four indeterminate cells are stored.
\<close>

definition bump_imgtype :: "cell list \<Rightarrow> cell list option" where
  "bump_imgtype bootimg =
     (if 56 \<le> length bootimg
      then (let imgtype_buffer = take 4 (drop 52 bootimg)
            in case uint32_le imgtype_buffer of
                 None \<Rightarrow> memcpy bootimg 52 (replicate 4 None)
               | Some v \<Rightarrow> memcpy bootimg 52 (map Some (le32 (u32 (v + 1)))))
      else None)"

text \<open>
  Lines 265--271: \<^verbatim>\<open>hdr_calc\<close> is a copy of the first 56 cells with cell 7 set to
  zero, and \<open>xor\<close> accumulates over it from 0.  The result is indeterminate when one
  of the cells is.
\<close>

definition xor_checksum :: "cell list \<Rightarrow> cell" where
  "xor_checksum bootimg =
     (let hdr_calc = (take 56 bootimg)[7 := Some 0]
      in if None \<in> set hdr_calc then None
         else Some (foldl (\<lambda>x c. x XOR the c) 0 hdr_calc))"

text \<open>
  Lines 261--273: the sector count (an \<^verbatim>\<open>int\<close> converted to 32 bits unsigned) at
  offset 48, the checksum at offset 7.
\<close>

definition update_hdr :: "int \<Rightarrow> cell list \<Rightarrow> cell list option" where
  "update_hdr buf_size bootimg =
     (let sectors = nat ((buf_size div 512 - 1) mod 2 ^ 32)
      in do {
           b1 \<leftarrow> memcpy bootimg 48 (map Some (le32 sectors));
           (if 56 \<le> length b1 then memcpy b1 7 [xor_checksum b1] else None)
         })"

text \<open>The marker of a signed image, line 237.\<close>

definition sig_magic :: "u8 list" where
  "sig_magic = [0xBD, 0x02, 0xBD, 0x02, 0xBD, 0x12, 0xBD, 0x12]"

text \<open>
  Lines 223--273: the buffer is laid out from the data read.  \<open>hdr_data\<close> and
  \<open>sig_data\<close> are \<open>None\<close> for a null pointer; \<open>hdr_size\<close> and \<open>sig_size\<close> are
  then still 0.  For \<open>img_size \<ge> 0\<close>, the one case in which the allocation
  succeeds, C's \<^verbatim>\<open>%\<close> and \<^verbatim>\<open>/\<close> agree with \<open>mod\<close> and \<open>div\<close>.
\<close>

definition layout :: "cell list option \<Rightarrow> cell list option \<Rightarrow> cell list list \<Rightarrow> cell list option" where
  "layout hdr_data sig_data required_data =
     (let hdr_size = (case hdr_data of None \<Rightarrow> 0 | Some h \<Rightarrow> length h);
          sig_size = (case sig_data of None \<Rightarrow> 0 | Some g \<Rightarrow> length g);
          required_size = map length required_data;
          img_size = int32 (u32 (hdr_size + sig_size + 4096 + required_size ! 2
                                  + required_size ! 3 + required_size ! 4));
          padding_size = (if 512 - (img_size mod 512) < 512 then 512 - (img_size mod 512) else 0)
      in do {
           b0 \<leftarrow> malloc (img_size + padding_size);
           b1 \<leftarrow> (case hdr_data of None \<Rightarrow> Some b0 | Some h \<Rightarrow> memcpy b0 0 h);
           b2 \<leftarrow> (case sig_data of
                     Some g \<Rightarrow> do {
                       b \<leftarrow> memcpy b1 hdr_size g;
                       memcpy b (u32 (hdr_size + sig_size + 1024 + 16)) (map Some sig_magic)
                     }
                   | None \<Rightarrow> (case hdr_data of Some h \<Rightarrow> bump_imgtype b1 | None \<Rightarrow> Some b1));
           b3 \<leftarrow> memcpy b2 (u32 (hdr_size + sig_size)) (required_data ! 0);
           b4 \<leftarrow> memcpy b3 (u32 (hdr_size + sig_size + 1024)) (map Some (le32 (required_size ! 3)));
           b5 \<leftarrow> memcpy b4 (u32 (hdr_size + sig_size + 1024 + 4)) (map Some (le32 (required_size ! 4)));
           b6 \<leftarrow> memcpy b5 (u32 (hdr_size + sig_size + 1024 + 8)) (required_data ! 1);
           b7 \<leftarrow> memcpy b6 (u32 (hdr_size + sig_size + 4096)) (required_data ! 2);
           b8 \<leftarrow> memcpy b7 (u32 (hdr_size + sig_size + 4096 + required_size ! 2)) (required_data ! 3);
           b9 \<leftarrow> memcpy b8 (u32 (hdr_size + sig_size + 4096 + required_size ! 2 + required_size ! 3))
                   (required_data ! 4);
           b10 \<leftarrow> memset b9 (nat img_size) 0xFF (nat padding_size);
           (case hdr_data of
              Some h \<Rightarrow> update_hdr (img_size + padding_size) b10
            | None \<Rightarrow> Some b10)
         })"

text \<open>What a run of \<^verbatim>\<open>pack\<close> leaves behind: the status, the bytes written to
  \<^verbatim>\<open>filename\<close> if it got that far, and the diagnostics.\<close>

record pack_run =
  status :: int
  image :: "cell list option"
  errors :: "diag list"

text \<open>
  \<^verbatim>\<open>pack()\<close>, lines 197--279.  \<open>writable\<close> tells whether \<^verbatim>\<open>filename\<close> opens for
  writing.
\<close>

definition pack :: "dir \<Rightarrow> bool \<Rightarrow> pack_run option" where
  "pack d writable =
     do {
       hdr_data \<leftarrow> read_file d ''hdr'';
       sig_data \<leftarrow> read_file d ''sig'';
       required \<leftarrow> read_required d required_file;
       (case required of
          Inl name \<Rightarrow> Some \<lparr>status = 1, image = None, errors = [Cannot_open_input name]\<rparr>
        | Inr required_data \<Rightarrow>
            if \<not> writable
            then Some \<lparr>status = 1, image = None, errors = [Cannot_open_output]\<rparr>
            else do {
                   bootimg \<leftarrow> layout hdr_data sig_data required_data;
                   Some \<lparr>status = 0, image = Some bootimg, errors = []\<rparr>
                 })
     }"

text \<open>
  The closed form of \<^verbatim>\<open>padding_size\<close> (line 225) for an image of \<open>t\<close> bytes.
\<close>

definition pad512 :: "nat \<Rightarrow> nat" where
  "pad512 t = (if t mod 512 = 0 then 0 else 512 - t mod 512)"

section \<open>Reading a run\<close>

text \<open>
  The verdict of \<^verbatim>\<open>check_byte(f, sz, mn)\<close> with the stream at offset \<open>off\<close> of
  \<open>bytes\<close>; \<open>None\<close> when the call is undefined.
\<close>

definition probe :: "(u8 \<Rightarrow> int) \<Rightarrow> u8 list \<Rightarrow> nat \<Rightarrow> int \<Rightarrow> int \<Rightarrow> int option" where
  "probe isalnum bytes off sz mn =
     map_option fst (check_byte isalnum \<lparr>data = bytes, pos = off\<rparr> sz mn)"

text \<open>The number a run printed after a label, and the contents of a file it wrote.\<close>

definition reported :: "unpack_run \<Rightarrow> string \<Rightarrow> int option" where
  "reported r label = map_of (stdout r) label"

definition emitted :: "unpack_run \<Rightarrow> string \<Rightarrow> cell list option" where
  "emitted r name = map_of (files r) name"

text \<open>
  An image with every region that the reads of \<^verbatim>\<open>unpack\<close> (lines 109--166) walk through,
  in their order: header, signature, command line, the two size fields (the lengths of
  kernel and ramdisk, little-endian), the 8 parameter bytes, the rest of the 4096-byte
  block, bootstub, kernel and ramdisk, then the 0xFF bytes up to the next multiple of 512
  (lines 225 and 258 of \<^verbatim>\<open>pack\<close>).
\<close>

definition boot_image ::
  "u8 list \<Rightarrow> u8 list \<Rightarrow> u8 list \<Rightarrow> u8 list \<Rightarrow> u8 list \<Rightarrow> u8 list \<Rightarrow> u8 list \<Rightarrow> u8 list \<Rightarrow> u8 list" where
  "boot_image hdr sg cmdline param filler bootstub kern ramdisk =
     (let body = hdr @ sg @ cmdline @ le32 (length kern) @ le32 (length ramdisk) @ param
                   @ filler @ bootstub @ kern @ ramdisk
      in body @ replicate (pad512 (length body)) 0xFF)"


section \<open>Sample inputs\<close>

text \<open>A directory with all seven files, the kernel and the ramdisk at their smallest valid sizes.\<close>

definition sample_dir :: dir where
  "sample_dir =
     [''hdr'' \<mapsto> replicate 512 (Some 0xA5),
      ''sig'' \<mapsto> replicate 480 (Some 0x5A),
      ''cmdline.txt'' \<mapsto> map Some [0x61, 0x62, 0x63],
      ''parameter'' \<mapsto> map Some [0x11, 0x22, 0x33, 0x44, 0x55, 0x66, 0x77, 0x88],
      ''bootstub'' \<mapsto> replicate 4096 (Some 0xEE),
      ''kernel'' \<mapsto> replicate 500000 (Some 0x4B),
      ''ramdisk.cpio.gz'' \<mapsto> replicate 10000 (Some 0x52)]"

text \<open>
  The regions of a sample image: a header that starts with \<^verbatim>\<open>$OS$\<close>, a signature of
  728 bytes, the command line \<^verbatim>\<open>abc\<close> padded with NUL to 1024 bytes, 8 parameter bytes, the
  rest of the 4096-byte block (the marker of a signed image, then zeros), a bootstub of
  4096 bytes, and the smallest valid kernel and ramdisk.
\<close>

definition sample_hdr :: "u8 list" where
  "sample_hdr = [0x24, 0x4F, 0x53, 0x24] @ replicate 508 0"

definition sample_sig :: "u8 list" where
  "sample_sig = replicate 728 0xFF"

definition sample_cmdline :: "u8 list" where
  "sample_cmdline = [0x61, 0x62, 0x63] @ replicate 1021 0"

definition sample_param :: "u8 list" where
  "sample_param = [0x11, 0x22, 0x33, 0x44, 0x55, 0x66, 0x77, 0x88]"

definition sample_filler :: "u8 list" where
  "sample_filler = sig_magic @ replicate 3048 0"

definition sample_bootstub :: "u8 list" where
  "sample_bootstub = replicate 4096 0xEE"

definition sample_kernel :: "u8 list" where
  "sample_kernel = [0x1F, 0x8B] @ replicate 499998 0x90"

definition sample_ramdisk :: "u8 list" where
  "sample_ramdisk = replicate 10000 0x52"

definition sample_image :: "u8 list" where
  "sample_image = boot_image sample_hdr sample_sig sample_cmdline sample_param sample_filler
                    sample_bootstub sample_kernel sample_ramdisk"

text \<open>The same image around a kernel that starts with the letters \<^verbatim>\<open>MZ\<close>.\<close>

definition mz_kernel :: "u8 list" where
  "mz_kernel = [0x4D, 0x5A] @ replicate 499998 0x90"


text \<open>What \<^verbatim>\<open>unpack\<close> leaves behind on \<open>sample_image\<close>.\<close>

definition sample_run :: unpack_run where
  "sample_run =
     \<lparr>ret = 0,
      files = [(''hdr'', map Some sample_hdr), (''sig'', map Some sample_sig),
               (''cmdline.txt'', [Some 0x61, Some 0x62, Some 0x63]),
               (''parameter'', map Some sample_param),
               (''bootstub'', map Some sample_bootstub),
               (''kernel'', map Some sample_kernel),
               (''ramdisk.cpio.gz'', map Some sample_ramdisk)],
      stdout = [(''header size'', 512), (''sig size'', 728), (''bootstub size'', 4096),
                (''kernel size'', 500000), (''ramdisk size'', 10000)],
      stderr = []\<rparr>"

text \<open>
  A stream that ends two bytes after the bootstub and whose kernel-size field holds
  499999, and what \<^verbatim>\<open>unpack\<close> leaves behind on it.
\<close>

definition bad_size_image :: "u8 list" where
  "bad_size_image = sample_hdr @ sample_sig @ sample_cmdline @ le32 499999 @ le32 10000
                      @ sample_param @ sample_filler @ sample_bootstub @ [0x1F, 0x8B]"

definition bad_size_run :: unpack_run where
  "bad_size_run =
     \<lparr>ret = 1,
      files = [(''hdr'', map Some sample_hdr), (''sig'', map Some sample_sig),
               (''cmdline.txt'', [Some 0x61, Some 0x62, Some 0x63]),
               (''parameter'', map Some sample_param),
               (''bootstub'', map Some sample_bootstub)],
      stdout = [(''header size'', 512), (''sig size'', 728), (''bootstub size'', 4096)],
      stderr = [Kernel_size_wrong]\<rparr>"

text \<open>
  A stream that ends with the kernel and whose ramdisk-size field holds 9999, and what
  \<^verbatim>\<open>unpack\<close> leaves behind on it.
\<close>

definition bad_ramdisk_image :: "u8 list" where
  "bad_ramdisk_image = sample_hdr @ sample_sig @ sample_cmdline @ le32 500000 @ le32 9999
                         @ sample_param @ sample_filler @ sample_bootstub @ sample_kernel"

definition bad_ramdisk_run :: unpack_run where
  "bad_ramdisk_run =
     \<lparr>ret = 1,
      files = [(''hdr'', map Some sample_hdr), (''sig'', map Some sample_sig),
               (''cmdline.txt'', [Some 0x61, Some 0x62, Some 0x63]),
               (''parameter'', map Some sample_param),
               (''bootstub'', map Some sample_bootstub),
               (''kernel'', map Some sample_kernel)],
      stdout = [(''header size'', 512), (''sig size'', 728), (''bootstub size'', 4096),
                (''kernel size'', 500000)],
      stderr = [Ramdisk_size_wrong]\<rparr>"

text \<open>
  An image without header and signature, which starts with its command line, and what
  \<^verbatim>\<open>unpack\<close> leaves behind on it.
\<close>

definition bare_image :: "u8 list" where
  "bare_image = sample_cmdline @ le32 500000 @ le32 10000 @ sample_param @ replicate 3056 0
                  @ sample_bootstub @ sample_kernel @ sample_ramdisk"

definition bare_run :: unpack_run where
  "bare_run =
     \<lparr>ret = 0,
      files = [(''cmdline.txt'', [Some 0x61, Some 0x62, Some 0x63]),
               (''parameter'', map Some sample_param),
               (''bootstub'', map Some sample_bootstub),
               (''kernel'', map Some sample_kernel),
               (''ramdisk.cpio.gz'', map Some sample_ramdisk)],
      stdout = [(''header size'', 0), (''sig size'', 0), (''bootstub size'', 4096),
                (''kernel size'', 500000), (''ramdisk size'', 10000)],
      stderr = []\<rparr>"


section \<open>Properties of the content probe\<close>

lemma take2_eq:
  assumes "take 2 xs = [a, b]"
  shows "\<exists>r. xs = a # b # r"
proof (cases xs)
  case Nil
  with assms show ?thesis by simp
next
  case (Cons x ys)
  with assms show ?thesis
    by (cases ys) (simp_all add: numeral_2_eq_2)
qed

lemma check_byte_verdict:
  assumes "drop (pos f) (data f) = b0 # b1 # rest" and "1 \<le> sz"
  shows "map_option fst (check_byte isalnum f sz mn) =
           Some (let t = (if sz > 1 \<and> b0 = 0 then b1 else b0); bytes = isalnum t
                 in if bytes > mn \<and> bytes < sz then 1 else 0)"
proof (cases "sz > 1")
  case True
  then have n: "nat sz = Suc (nat (sz - 1))" "nat (sz - 1) = Suc (nat (sz - 2))"
    by simp_all
  show ?thesis
  proof (cases "b0 = 0")
    case z: True
    have "drop (Suc (pos f)) (data f) = b1 # rest"
      using assms(1) by (metis drop_Suc list.sel(3) tl_drop)
    then show ?thesis
      using True z assms(1) n
      by (simp add: check_byte_def fread_def Let_def)
  next
    case nz: False
    show ?thesis
      using True nz assms(1) n
      by (simp add: check_byte_def fread_def fseek_cur_def Let_def)
  qed
next
  case False
  with assms(2) have "sz = 1" by simp
  then show ?thesis
    using assms(1) by (simp add: check_byte_def fread_def Let_def)
qed

text \<open>
  C10.  The verdict of the probe depends only on the first two bytes of the probed
  window: on two streams whose next two bytes at the current offset are the same, and
  with the same \<^verbatim>\<open>size\<close> and \<^verbatim>\<open>min\<close>, \<open>check_byte\<close> returns the same value, whatever
  follows those two bytes and whatever the two offsets are.  For a window of at least
  one byte that value is determined (the probe reads no uninitialised cell).
\<close>

theorem check_byte_first_two_bytes:
  assumes "take 2 (drop (pos f) (data f)) = [b0, b1]"
      and "take 2 (drop (pos g) (data g)) = [b0, b1]"
  shows "map_option fst (check_byte isalnum f sz mn) =
           map_option fst (check_byte isalnum g sz mn)
         \<and> (1 \<le> sz \<longrightarrow> check_byte isalnum f sz mn \<noteq> None)"
proof -
  obtain rf where f: "drop (pos f) (data f) = b0 # b1 # rf"
    using take2_eq [OF assms(1)] by blast
  obtain rg where g: "drop (pos g) (data g) = b0 # b1 # rg"
    using take2_eq [OF assms(2)] by blast
  show ?thesis
  proof (cases "1 \<le> sz")
    case True
    then show ?thesis
      using check_byte_verdict [OF f True, of isalnum mn]
            check_byte_verdict [OF g True, of isalnum mn]
      by auto
  next
    case False
    then have "check_byte isalnum f sz mn = None" "check_byte isalnum g sz mn = None"
      by (simp_all add: check_byte_def fread_def Let_def)
    with False show ?thesis by simp
  qed
qed

theorem check_byte_first_two_bytes_witness:
  "take 2 (drop (pos \<lparr>data = [0x61, 0x62, 0x63, 0x64], pos = 0\<rparr>)
             (data \<lparr>data = [0x61, 0x62, 0x63, 0x64], pos = 0\<rparr>)) = [0x61, 0x62 :: u8]
   \<and> take 2 (drop (pos \<lparr>data = [0, 0x61, 0x62, 0xFF, 0, 0], pos = 1\<rparr>)
             (data \<lparr>data = [0, 0x61, 0x62, 0xFF, 0, 0], pos = 1\<rparr>)) = [0x61, 0x62 :: u8]
   \<and> map_option fst (check_byte isalnum_bsd \<lparr>data = [0x61, 0x62, 0x63, 0x64], pos = 0\<rparr> 4 1) =
       map_option fst (check_byte isalnum_bsd \<lparr>data = [0, 0x61, 0x62, 0xFF, 0, 0], pos = 1\<rparr> 4 1)
   \<and> check_byte isalnum_bsd \<lparr>data = [0x61, 0x62, 0x63, 0x64], pos = 0\<rparr> 4 1 \<noteq> None"
  using check_byte_first_two_bytes
          [of "\<lparr>data = [0x61, 0x62, 0x63, 0x64], pos = 0\<rparr>" "0x61" "0x62"
              "\<lparr>data = [0, 0x61, 0x62, 0xFF, 0, 0], pos = 1\<rparr>" isalnum_bsd 4 1]
  by (simp add: numeral_2_eq_2)

section \<open>Properties of the Image Assembler\<close>

lemma memcpy_Some:
  assumes "memcpy b off src = Some b'"
  shows "off + length src \<le> length b" and "length b' = length b"
    and "\<And>i. i < length b \<Longrightarrow> b' ! i = (if off \<le> i \<and> i < off + length src then src ! (i - off) else b ! i)"
  using assms by (auto simp: memcpy_def nth_append split: if_splits)

lemma memcpy_fits: "off + length src \<le> length b \<Longrightarrow> \<exists>b'. memcpy b off src = Some b'"
  by (simp add: memcpy_def)

lemma u32_id: "n < 4294967296 \<Longrightarrow> u32 n = n"
  by (simp add: u32_def)

lemma int32_id: "n < 2147483648 \<Longrightarrow> int32 n = int n"
  by (simp add: int32_def)

lemma malloc_Some: "malloc n = Some b \<Longrightarrow> 0 \<le> n \<and> n < 2147483648 \<and> b = replicate (nat n) None"
  by (auto simp: malloc_def split: if_splits)

lemma bindE:
  assumes "(m \<bind> f) = Some y"
  obtains x where "m = Some x" and "f x = Some y"
  using assms by (auto simp: bind_eq_Some_conv)

lemma nth5:
  "[x0, x1, x2, x3, x4] ! 0 = x0" "[x0, x1, x2, x3, x4] ! 1 = x1" "[x0, x1, x2, x3, x4] ! 2 = x2"
  "[x0, x1, x2, x3, x4] ! 3 = x3" "[x0, x1, x2, x3, x4] ! 4 = x4"
  by simp_all

lemma layout_steps:
  assumes "layout hdr_data sig_data [c, p, b, k, rd] = Some out"
      and "H = (case hdr_data of None \<Rightarrow> 0 | Some h \<Rightarrow> length h)"
      and "S = (case sig_data of None \<Rightarrow> 0 | Some g \<Rightarrow> length g)"
      and "img_size = int32 (u32 (H + S + 4096 + length b + length k + length rd))"
      and "padding_size = (if 512 - (img_size mod 512) < 512 then 512 - (img_size mod 512) else 0)"
  obtains b0 b1 b2 b3 b4 b5 b6 b7 b8 b9 b10 where
    "malloc (img_size + padding_size) = Some b0"
    "(case hdr_data of None \<Rightarrow> Some b0 | Some h \<Rightarrow> memcpy b0 0 h) = Some b1"
    "(case sig_data of
         Some g \<Rightarrow> do {
           b \<leftarrow> memcpy b1 H g;
           memcpy b (u32 (H + S + 1024 + 16)) (map Some sig_magic)
         }
       | None \<Rightarrow> (case hdr_data of Some h \<Rightarrow> bump_imgtype b1 | None \<Rightarrow> Some b1)) = Some b2"
    "memcpy b2 (u32 (H + S)) c = Some b3"
    "memcpy b3 (u32 (H + S + 1024)) (map Some (le32 (length k))) = Some b4"
    "memcpy b4 (u32 (H + S + 1024 + 4)) (map Some (le32 (length rd))) = Some b5"
    "memcpy b5 (u32 (H + S + 1024 + 8)) p = Some b6"
    "memcpy b6 (u32 (H + S + 4096)) b = Some b7"
    "memcpy b7 (u32 (H + S + 4096 + length b)) k = Some b8"
    "memcpy b8 (u32 (H + S + 4096 + length b + length k)) rd = Some b9"
    "memset b9 (nat img_size) 0xFF (nat padding_size) = Some b10"
    "(case hdr_data of Some h \<Rightarrow> update_hdr (img_size + padding_size) b10 | None \<Rightarrow> Some b10) = Some out"
  using assms(1) unfolding layout_def Let_def assms(2-5)
  apply (simp only: list.map nth5)
  apply (elim bindE)
  apply blast
  done

lemma pad512_int:
  "(if 512 - (int t mod 512) < 512 then 512 - (int t mod 512) else 0) = int (pad512 t)"
proof -
  have m: "int t mod 512 = int (t mod 512)" by (simp add: zmod_int)
  have "t mod 512 < 512" by simp
  then show ?thesis unfolding pad512_def m by (simp add: of_nat_diff)
qed

lemma layout_chain:
  assumes "layout hdr_data sig_data [c, p, b, k, rd] = Some out"
      and H: "H = (case hdr_data of None \<Rightarrow> 0 | Some h \<Rightarrow> length h)"
      and S: "S = (case sig_data of None \<Rightarrow> 0 | Some g \<Rightarrow> length g)"
      and T: "T = H + S + 4096 + length b + length k + length rd"
      and L: "L = T + pad512 T"
  obtains b1 b2 b10 where
    "L < 2147483648"
    "H + S + length c \<le> L" "H + S + 1032 + length p \<le> L"
    "length b1 = L" "length b2 = L" "length b10 = L"
    "(case hdr_data of None \<Rightarrow> Some (replicate L None) | Some h \<Rightarrow> memcpy (replicate L None) 0 h) = Some b1"
    "(case sig_data of
         Some g \<Rightarrow> do {
           b \<leftarrow> memcpy b1 H g;
           memcpy b (H + S + 1040) (map Some sig_magic)
         }
       | None \<Rightarrow> (case hdr_data of Some h \<Rightarrow> bump_imgtype b1 | None \<Rightarrow> Some b1)) = Some b2"
    "\<And>i. i < L \<Longrightarrow> b10 ! i =
       (if T \<le> i then Some 0xFF
        else if H + S + 4096 + length b + length k \<le> i
          then rd ! (i - (H + S + 4096 + length b + length k))
        else if H + S + 4096 + length b \<le> i then k ! (i - (H + S + 4096 + length b))
        else if H + S + 4096 \<le> i then b ! (i - (H + S + 4096))
        else if H + S + 1032 \<le> i \<and> i < H + S + 1032 + length p then p ! (i - (H + S + 1032))
        else if H + S + 1028 \<le> i \<and> i < H + S + 1032
          then Some (le32 (length rd) ! (i - (H + S + 1028)))
        else if H + S + 1024 \<le> i \<and> i < H + S + 1028
          then Some (le32 (length k) ! (i - (H + S + 1024)))
        else if H + S \<le> i \<and> i < H + S + length c then c ! (i - (H + S))
        else b2 ! i)"
    "(case hdr_data of Some h \<Rightarrow> update_hdr (int L) b10 | None \<Rightarrow> Some b10) = Some out"
proof -
  define img_size where "img_size = int32 (u32 (H + S + 4096 + length b + length k + length rd))"
  define padding_size where
    "padding_size = (if 512 - (img_size mod 512) < 512 then 512 - (img_size mod 512) else 0)"
  obtain b0 b1 b2 b3 b4 b5 b6 b7 b8 b9 b10 where
    s0: "malloc (img_size + padding_size) = Some b0" and
    s1: "(case hdr_data of None \<Rightarrow> Some b0 | Some h \<Rightarrow> memcpy b0 0 h) = Some b1" and
    s2: "(case sig_data of
         Some g \<Rightarrow> do {
           b \<leftarrow> memcpy b1 H g;
           memcpy b (u32 (H + S + 1024 + 16)) (map Some sig_magic)
         }
       | None \<Rightarrow> (case hdr_data of Some h \<Rightarrow> bump_imgtype b1 | None \<Rightarrow> Some b1)) = Some b2" and
    s3: "memcpy b2 (u32 (H + S)) c = Some b3" and
    s4: "memcpy b3 (u32 (H + S + 1024)) (map Some (le32 (length k))) = Some b4" and
    s5: "memcpy b4 (u32 (H + S + 1024 + 4)) (map Some (le32 (length rd))) = Some b5" and
    s6: "memcpy b5 (u32 (H + S + 1024 + 8)) p = Some b6" and
    s7: "memcpy b6 (u32 (H + S + 4096)) b = Some b7" and
    s8: "memcpy b7 (u32 (H + S + 4096 + length b)) k = Some b8" and
    s9: "memcpy b8 (u32 (H + S + 4096 + length b + length k)) rd = Some b9" and
    s10: "memset b9 (nat img_size) 0xFF (nat padding_size) = Some b10" and
    s11: "(case hdr_data of Some h \<Rightarrow> update_hdr (img_size + padding_size) b10 | None \<Rightarrow> Some b10) = Some out"
    by (rule layout_steps [OF assms(1) H S img_size_def padding_size_def])
  define M where "M = length b0"
  have M: "M < 2147483648" "int M = img_size + padding_size" "b0 = replicate M None"
    using malloc_Some [OF s0] by (auto simp: M_def)
  have l1: "length b1 = M" and HM: "H \<le> M"
    using s1 by (auto simp: M_def H dest: memcpy_Some(1,2) split: option.splits)
  have "length b2 = M \<and> H + S \<le> M"
  proof (cases sig_data)
    case None
    then show ?thesis
      using s2 l1 HM
      by (auto simp: S bump_imgtype_def Let_def dest: memcpy_Some(2) split: option.splits if_splits)
  next
    case (Some g)
    then obtain bb where "memcpy b1 H g = Some bb"
      and "memcpy bb (u32 (H + S + 1024 + 16)) (map Some sig_magic) = Some b2"
      using s2 by (auto elim: bindE)
    then show ?thesis
      using l1 Some memcpy_Some(1,2) [of b1 H g bb] memcpy_Some(2) [of bb _ _ b2]
      by (simp add: S)
  qed
  then have l2: "length b2 = M" and HSM: "H + S \<le> M" by simp_all
  have u: "u32 (H + S) = H + S" "u32 (H + S + 1024) = H + S + 1024"
    "u32 (H + S + 1024 + 4) = H + S + 1028" "u32 (H + S + 1024 + 8) = H + S + 1032"
    "u32 (H + S + 1024 + 16) = H + S + 1040" "u32 (H + S + 4096) = H + S + 4096"
    using HSM M(1) by (simp_all add: u32_id)
  have len4: "length (le32 x) = 4" for x by (simp add: le32_def)
  note s3 = s3 [unfolded u] and s4 = s4 [unfolded u] and s5 = s5 [unfolded u]
    and s6 = s6 [unfolded u] and s7 = s7 [unfolded u] and s2 = s2 [unfolded u]
  have l3: "length b3 = M" and cfit: "H + S + length c \<le> M"
    using memcpy_Some(1,2) [OF s3] l2 by simp_all
  have l4: "length b4 = M" using memcpy_Some(2) [OF s4] l3 by simp
  have l5: "length b5 = M" using memcpy_Some(2) [OF s5] l4 by simp
  have l6: "length b6 = M" and pfit: "H + S + 1032 + length p \<le> M"
    using memcpy_Some(1,2) [OF s6] l5 by simp_all
  have l7: "length b7 = M" and bfit: "H + S + 4096 + length b \<le> M"
    using memcpy_Some(1,2) [OF s7] l6 by simp_all
  have u8: "u32 (H + S + 4096 + length b) = H + S + 4096 + length b"
    using bfit M(1) by (simp add: u32_id)
  note s8 = s8 [unfolded u8]
  have l8: "length b8 = M" and kfit: "H + S + 4096 + length b + length k \<le> M"
    using memcpy_Some(1,2) [OF s8] l7 by simp_all
  have u9: "u32 (H + S + 4096 + length b + length k) = H + S + 4096 + length b + length k"
    using kfit M(1) by (simp add: u32_id)
  note s9 = s9 [unfolded u9]
  have l9: "length b9 = M" and rfit: "T \<le> M"
    using memcpy_Some(1,2) [OF s9] l8 by (simp_all add: T)
  have img: "img_size = int T"
    using rfit M(1) by (simp add: img_size_def T [symmetric] u32_id int32_id)
  have pad: "padding_size = int (pad512 T)"
    unfolding padding_size_def img by (rule pad512_int)
  have M_eq: "M = L"
    using M(2) img pad L by simp
  have s10': "memcpy b9 T (replicate (pad512 T) (Some 0xFF)) = Some b10"
    using s10 by (simp add: memset_def img pad)
  have l10: "length b10 = M"
    using memcpy_Some(2) [OF s10'] l9 by simp
  have n3: "b3 ! i = (if H + S \<le> i \<and> i < H + S + length c then c ! (i - (H + S)) else b2 ! i)"
    if "i < M" for i using memcpy_Some(3) [OF s3, of i] that l2 by simp
  have n4: "b4 ! i = (if H + S + 1024 \<le> i \<and> i < H + S + 1028
                     then Some (le32 (length k) ! (i - (H + S + 1024))) else b3 ! i)"
    if "i < M" for i using memcpy_Some(3) [OF s4, of i] that l3 by (auto simp: len4)
  have n5: "b5 ! i = (if H + S + 1028 \<le> i \<and> i < H + S + 1032
                     then Some (le32 (length rd) ! (i - (H + S + 1028))) else b4 ! i)"
    if "i < M" for i using memcpy_Some(3) [OF s5, of i] that l4 by (auto simp: len4)
  have n6: "b6 ! i = (if H + S + 1032 \<le> i \<and> i < H + S + 1032 + length p
                     then p ! (i - (H + S + 1032)) else b5 ! i)"
    if "i < M" for i using memcpy_Some(3) [OF s6, of i] that l5 by simp
  have n7: "b7 ! i = (if H + S + 4096 \<le> i \<and> i < H + S + 4096 + length b
                     then b ! (i - (H + S + 4096)) else b6 ! i)"
    if "i < M" for i using memcpy_Some(3) [OF s7, of i] that l6 by simp
  have n8: "b8 ! i = (if H + S + 4096 + length b \<le> i \<and> i < H + S + 4096 + length b + length k
                     then k ! (i - (H + S + 4096 + length b)) else b7 ! i)"
    if "i < M" for i using memcpy_Some(3) [OF s8, of i] that l7 by simp
  have n9: "b9 ! i = (if H + S + 4096 + length b + length k \<le> i \<and> i < T
                     then rd ! (i - (H + S + 4096 + length b + length k)) else b8 ! i)"
    if "i < M" for i using memcpy_Some(3) [OF s9, of i] that l8 by (simp add: T)
  have n10: "b10 ! i = (if T \<le> i then Some 0xFF else b9 ! i)"
    if "i < M" for i using memcpy_Some(3) [OF s10', of i] that l9 M_eq L by auto
  show ?thesis
  proof (rule that [of b1 b2 b10])
    show "L < 2147483648" using M(1) M_eq by simp
    show "H + S + length c \<le> L" using cfit M_eq by simp
    show "H + S + 1032 + length p \<le> L" using pfit M_eq by simp
    show "length b1 = L" "length b2 = L" "length b10 = L" using l1 l2 l10 M_eq by simp_all
    show "(case hdr_data of None \<Rightarrow> Some (replicate L None)
           | Some h \<Rightarrow> memcpy (replicate L None) 0 h) = Some b1"
      using s1 M(3) M_eq by (cases hdr_data) simp_all
    show "(case sig_data of
         Some g \<Rightarrow> do {
           b \<leftarrow> memcpy b1 H g;
           memcpy b (H + S + 1040) (map Some sig_magic)
         }
       | None \<Rightarrow> (case hdr_data of Some h \<Rightarrow> bump_imgtype b1 | None \<Rightarrow> Some b1)) = Some b2"
      by (rule s2)
    show "(case hdr_data of Some h \<Rightarrow> update_hdr (int L) b10 | None \<Rightarrow> Some b10) = Some out"
      using s11 M(2) M_eq by (cases hdr_data) simp_all
    fix i assume "i < L"
    then have i: "i < M" using M_eq by simp
    show "b10 ! i =
       (if T \<le> i then Some 0xFF
        else if H + S + 4096 + length b + length k \<le> i
          then rd ! (i - (H + S + 4096 + length b + length k))
        else if H + S + 4096 + length b \<le> i then k ! (i - (H + S + 4096 + length b))
        else if H + S + 4096 \<le> i then b ! (i - (H + S + 4096))
        else if H + S + 1032 \<le> i \<and> i < H + S + 1032 + length p then p ! (i - (H + S + 1032))
        else if H + S + 1028 \<le> i \<and> i < H + S + 1032
          then Some (le32 (length rd) ! (i - (H + S + 1028)))
        else if H + S + 1024 \<le> i \<and> i < H + S + 1028
          then Some (le32 (length k) ! (i - (H + S + 1024)))
        else if H + S \<le> i \<and> i < H + S + length c then c ! (i - (H + S))
        else b2 ! i)"
      unfolding n10 [OF i] n9 [OF i] n8 [OF i] n7 [OF i] n6 [OF i] n5 [OF i] n4 [OF i] n3 [OF i]
      using T by auto
  qed
qed

lemma update_hdr_Some:
  assumes "update_hdr n b = Some out"
  shows "56 \<le> length b" and "length out = length b"
    and "out ! 7 = xor_checksum out"
    and "\<And>i. i < 4 \<Longrightarrow> out ! (48 + i) = Some (le32 (nat ((n div 512 - 1) mod 2 ^ 32)) ! i)"
    and "\<And>i. i < length b \<Longrightarrow> i \<noteq> 7 \<Longrightarrow> \<not> (48 \<le> i \<and> i < 52) \<Longrightarrow> out ! i = b ! i"
proof -
  obtain b1 where
    m1: "memcpy b 48 (map Some (le32 (nat ((n div 512 - 1) mod 2 ^ 32)))) = Some b1" and
    m2: "56 \<le> length b1" "memcpy b1 7 [xor_checksum b1] = Some out"
    using assms by (auto simp: update_hdr_def Let_def bind_eq_Some_conv split: if_splits)
  have l1: "length b1 = length b" by (rule memcpy_Some(2) [OF m1])
  have lo: "length out = length b" using memcpy_Some(2) [OF m2(2)] l1 by simp
  have len4: "length (le32 x) = 4" for x by (simp add: le32_def)
  show "56 \<le> length b" using m2(1) l1 by simp
  show "length out = length b" by (rule lo)
  have o: "out = b1[7 := xor_checksum b1]"
    using m2 by (auto simp: memcpy_def upd_conv_take_nth_drop split: if_splits)
  have "xor_checksum (b1[7 := c]) = xor_checksum b1" for c
    by (simp add: xor_checksum_def Let_def take_update_swap)
  then show "out ! 7 = xor_checksum out"
    using m2(1) by (simp add: o)
  show "out ! (48 + i) = Some (le32 (nat ((n div 512 - 1) mod 2 ^ 32)) ! i)" if "i < 4" for i
    using that memcpy_Some(3) [OF m1, of "48 + i"] m2(1) l1 by (simp add: o len4)
  show "out ! i = b ! i" if "i < length b" "i \<noteq> 7" "\<not> (48 \<le> i \<and> i < 52)" for i
    using that memcpy_Some(3) [OF m1, of i] by (auto simp add: o len4)
qed

lemma read_required_Inr:
  assumes "read_required d required_file = Some (Inr xs)"
  obtains c p b k rd where
    "d ''cmdline.txt'' = Some c" "d ''parameter'' = Some p" "d ''bootstub'' = Some b"
    "d ''kernel'' = Some k" "d ''ramdisk.cpio.gz'' = Some rd" "xs = [c, p, b, k, rd]"
  using assms unfolding required_file_def
  by (auto simp: read_file_def split: option.splits if_splits sum.splits)

lemma pack_image:
  assumes "pack d w = Some r" and "image r = Some out"
  obtains c p b k rd where
    "d ''cmdline.txt'' = Some c" "d ''parameter'' = Some p" "d ''bootstub'' = Some b"
    "d ''kernel'' = Some k" "d ''ramdisk.cpio.gz'' = Some rd"
    "layout (d ''hdr'') (d ''sig'') [c, p, b, k, rd] = Some out"
    "w" "status r = 0" "errors r = []"
proof -
  obtain hdr_data sig_data required where
    h: "read_file d ''hdr'' = Some hdr_data" and g: "read_file d ''sig'' = Some sig_data" and
    rq: "read_required d required_file = Some required" and
    rest: "(case required of
          Inl name \<Rightarrow> Some \<lparr>status = 1, image = None, errors = [Cannot_open_input name]\<rparr>
        | Inr required_data \<Rightarrow>
            if \<not> w
            then Some \<lparr>status = 1, image = None, errors = [Cannot_open_output]\<rparr>
            else do {
                   bootimg \<leftarrow> layout hdr_data sig_data required_data;
                   Some \<lparr>status = 0, image = Some bootimg, errors = []\<rparr>
                 }) = Some r"
    using assms(1) unfolding pack_def by (elim bindE) blast
  have hd: "hdr_data = d ''hdr''" using h by (auto simp: read_file_def split: option.splits if_splits)
  have sd: "sig_data = d ''sig''" using g by (auto simp: read_file_def split: option.splits if_splits)
  from rest assms(2) obtain xs where xs: "required = Inr xs" and w: w
    and lay: "layout hdr_data sig_data xs = Some out" and r: "status r = 0" "errors r = []"
    by (cases required) (auto simp: bind_eq_Some_conv split: if_splits)
  from rq [unfolded xs] obtain c p b k rd where
    f: "d ''cmdline.txt'' = Some c" "d ''parameter'' = Some p" "d ''bootstub'' = Some b"
    "d ''kernel'' = Some k" "d ''ramdisk.cpio.gz'' = Some rd" "xs = [c, p, b, k, rd]"
    by (rule read_required_Inr)
  show ?thesis
    using that [OF f(1-5) _ w r] lay f(6) hd sd by simp
qed

lemma pack_defined:
  assumes "d ''cmdline.txt'' = Some c" "d ''parameter'' = Some p" "d ''bootstub'' = Some b"
    "d ''kernel'' = Some k" "d ''ramdisk.cpio.gz'' = Some rd"
    and "layout (d ''hdr'') (d ''sig'') [c, p, b, k, rd] = Some out"
  shows "pack d True = Some \<lparr>status = 0, image = Some out, errors = []\<rparr>"
proof -
  define H where "H = (case d ''hdr'' of None \<Rightarrow> 0 | Some h \<Rightarrow> length h)"
  define S where "S = (case d ''sig'' of None \<Rightarrow> 0 | Some g \<Rightarrow> length g)"
  define T where "T = H + S + 4096 + length b + length k + length rd"
  obtain b1 b2 b10 where L: "T + pad512 T < 2147483648"
    and cp: "H + S + length c \<le> T + pad512 T" "H + S + 1032 + length p \<le> T + pad512 T"
    by (rule layout_chain [OF assms(6) H_def S_def T_def refl])
  have small: "length c < 2 ^ 31" "length p < 2 ^ 31" "length b < 2 ^ 31" "length k < 2 ^ 31"
    "length rd < 2 ^ 31" "H < 2 ^ 31" "S < 2 ^ 31"
    using L cp by (simp_all add: T_def)
  have h: "read_file d ''hdr'' = Some (d ''hdr'')"
    using small(6) by (auto simp: read_file_def H_def split: option.splits)
  have g: "read_file d ''sig'' = Some (d ''sig'')"
    using small(7) by (auto simp: read_file_def S_def split: option.splits)
  have rq: "read_required d required_file = Some (Inr [c, p, b, k, rd])"
    using assms(1-5) small(1-5) by (simp add: required_file_def read_file_def)
  show ?thesis
    by (simp add: pack_def h g rq assms(6))
qed

lemma memcpy_ex:
  assumes "off + length src \<le> length b"
  obtains b' where "memcpy b off src = Some b'" and "length b' = length b"
  using assms by (simp add: memcpy_def)

lemma memcpy_ex2:
  assumes "off + length src \<le> length b" and "length b = L"
  shows "\<exists>b'. memcpy b off src = Some b' \<and> length b' = L"
  using assms by (simp add: memcpy_def)

lemma bump_imgtype_ex:
  assumes "56 \<le> length b"
  obtains b' where "bump_imgtype b = Some b'" and "length b' = length b"
proof (cases "uint32_le (take 4 (drop 52 b))")
  case None
  then show ?thesis
    using assms that by (simp add: bump_imgtype_def Let_def memcpy_def)
next
  case (Some v)
  then show ?thesis
    using assms that by (simp add: bump_imgtype_def Let_def memcpy_def le32_def)
qed

lemma layout_fits:
  assumes H: "H = (case hdr_data of None \<Rightarrow> 0 | Some h \<Rightarrow> length h)"
      and S: "S = (case sig_data of None \<Rightarrow> 0 | Some g \<Rightarrow> length g)"
      and T: "T = H + S + 4096 + length b + length k + length rd"
      and L: "L = T + pad512 T"
      and fits: "L < 2147483648" "H + S + length c \<le> L" "H + S + 1032 + length p \<le> L"
  shows "\<exists>out. layout hdr_data sig_data [c, p, b, k, rd] = Some out"
proof -
  define img_size where "img_size = int32 (u32 (H + S + 4096 + length b + length k + length rd))"
  define padding_size where
    "padding_size = (if 512 - (img_size mod 512) < 512 then 512 - (img_size mod 512) else 0)"
  have TL: "T \<le> L" using L by simp
  have img: "img_size = int T"
    using TL fits(1) by (simp add: img_size_def T [symmetric] u32_id int32_id)
  have pad: "padding_size = int (pad512 T)"
    unfolding padding_size_def img by (rule pad512_int)
  have u: "u32 (H + S) = H + S" "u32 (H + S + 1024) = H + S + 1024"
    "u32 (H + S + 1024 + 4) = H + S + 1028" "u32 (H + S + 1024 + 8) = H + S + 1032"
    "u32 (H + S + 1024 + 16) = H + S + 1040" "u32 (H + S + 4096) = H + S + 4096"
    "u32 (H + S + 4096 + length b) = H + S + 4096 + length b"
    "u32 (H + S + 4096 + length b + length k) = H + S + 4096 + length b + length k"
    using TL fits(1) T by (simp_all add: u32_id)
  have len4: "length (le32 x) = 4" for x by (simp add: le32_def)
  have s0: "malloc (img_size + padding_size) = Some (replicate L None)"
    using fits(1) by (simp add: malloc_def img pad L)
  obtain b1 where s1: "(case hdr_data of None \<Rightarrow> Some (replicate L None)
      | Some h \<Rightarrow> memcpy (replicate L None) 0 h) = Some b1" and l1: "length b1 = L"
    using TL T H by (cases hdr_data) (auto simp: memcpy_def)
  obtain b2 where s2: "(case sig_data of
         Some g \<Rightarrow> do {
           b \<leftarrow> memcpy b1 H g;
           memcpy b (H + S + 1040) (map Some sig_magic)
         }
       | None \<Rightarrow> (case hdr_data of Some h \<Rightarrow> bump_imgtype b1 | None \<Rightarrow> Some b1)) = Some b2"
    and l2: "length b2 = L"
  proof (cases sig_data)
    case None
    have "56 \<le> length b1" using l1 TL T by simp
    then obtain b' where "bump_imgtype b1 = Some b'" "length b' = length b1"
      by (rule bump_imgtype_ex)
    then show ?thesis
      using that l1 None by (cases hdr_data) simp_all
  next
    case (Some g)
    have "H + length g \<le> length b1" using l1 TL T S Some by simp
    then obtain bb where bb: "memcpy b1 H g = Some bb" "length bb = length b1"
      by (rule memcpy_ex)
    have "H + S + 1040 + length (map Some sig_magic) \<le> length bb"
      using bb(2) l1 TL T by (simp add: sig_magic_def)
    then obtain b' where b': "memcpy bb (H + S + 1040) (map Some sig_magic) = Some b'"
      "length b' = length bb"
      by (rule memcpy_ex)
    show ?thesis
    proof (rule that [of b'])
      show "(case sig_data of
         Some g \<Rightarrow> do {
           b \<leftarrow> memcpy b1 H g;
           memcpy b (H + S + 1040) (map Some sig_magic)
         }
       | None \<Rightarrow> (case hdr_data of Some h \<Rightarrow> bump_imgtype b1 | None \<Rightarrow> Some b1)) = Some b'"
        unfolding Some using bb(1) b'(1) by simp
      show "length b' = L" using b'(2) bb(2) l1 by simp
    qed
  qed
  have f3: "H + S + length c \<le> length b2" using fits(2) l2 by simp
  obtain b3 where s3: "memcpy b2 (H + S) c = Some b3" and l3: "length b3 = L"
    using memcpy_ex2 [OF f3 l2] by blast
  have f4: "H + S + 1024 + length (map Some (le32 (length k))) \<le> length b3"
    using TL T l3 by (simp add: len4)
  obtain b4 where s4: "memcpy b3 (H + S + 1024) (map Some (le32 (length k))) = Some b4"
    and l4: "length b4 = L"
    using memcpy_ex2 [OF f4 l3] by blast
  have f5: "H + S + 1028 + length (map Some (le32 (length rd))) \<le> length b4"
    using TL T l4 by (simp add: len4)
  obtain b5 where s5: "memcpy b4 (H + S + 1028) (map Some (le32 (length rd))) = Some b5"
    and l5: "length b5 = L"
    using memcpy_ex2 [OF f5 l4] by blast
  have f6: "H + S + 1032 + length p \<le> length b5" using fits(3) l5 by simp
  obtain b6 where s6: "memcpy b5 (H + S + 1032) p = Some b6" and l6: "length b6 = L"
    using memcpy_ex2 [OF f6 l5] by blast
  have f7: "H + S + 4096 + length b \<le> length b6" using TL T l6 by simp
  obtain b7 where s7: "memcpy b6 (H + S + 4096) b = Some b7" and l7: "length b7 = L"
    using memcpy_ex2 [OF f7 l6] by blast
  have f8: "H + S + 4096 + length b + length k \<le> length b7" using TL T l7 by simp
  obtain b8 where s8: "memcpy b7 (H + S + 4096 + length b) k = Some b8" and l8: "length b8 = L"
    using memcpy_ex2 [OF f8 l7] by blast
  have f9: "H + S + 4096 + length b + length k + length rd \<le> length b8" using TL T l8 by simp
  obtain b9 where s9: "memcpy b8 (H + S + 4096 + length b + length k) rd = Some b9"
    and l9: "length b9 = L"
    using memcpy_ex2 [OF f9 l8] by blast
  have f10: "T + length (replicate (pad512 T) (Some (0xFF :: u8))) \<le> length b9"
    using L l9 by simp
  obtain b10 where "memcpy b9 T (replicate (pad512 T) (Some 0xFF)) = Some b10"
    and l10: "length b10 = L"
    using memcpy_ex2 [OF f10 l9] by blast
  then have s10: "memset b9 (nat img_size) 0xFF (nat padding_size) = Some b10"
    by (simp add: memset_def img pad)
  have "56 \<le> length b10" using TL T l10 by simp
  then obtain out where s11: "(case hdr_data of Some h \<Rightarrow> update_hdr (img_size + padding_size) b10
      | None \<Rightarrow> Some b10) = Some out"
    by (cases hdr_data) (auto simp: update_hdr_def Let_def memcpy_def len4)
  have "layout hdr_data sig_data [c, p, b, k, rd] = Some out"
    unfolding layout_def Let_def
    apply (simp only: list.map nth5)
    unfolding H [symmetric] S [symmetric] img_size_def [symmetric]
    unfolding padding_size_def [symmetric]
    unfolding u
    by (simp only: s0 s1 s2 s3 s4 s5 s6 s7 s8 s9 s10 s11 bind.bind_lunit)
  then show ?thesis ..
qed

lemma pad512_lt: "pad512 t < 512" by (simp add: pad512_def)
lemma pad512_dvd: "512 dvd (t + pad512 t)"
proof (cases "t mod 512 = 0")
  case True
  then show ?thesis by (simp add: pad512_def dvd_eq_mod_eq_0)
next
  case False
  define q r where "q = t div 512" and "r = t mod 512"
  have t: "t = 512 * q + r" and r: "r < 512" "r \<noteq> 0"
    using False by (simp_all add: q_def r_def)
  have "t + pad512 t = 512 * (q + 1)"
    using r unfolding pad512_def r_def [symmetric] t by simp
  then show ?thesis by simp
qed

text \<open>The cells of the image that the later writes of \<open>layout\<close> own.\<close>

lemma layout_regions:
  assumes lay: "layout hdr_data sig_data [c, p, b, k, rd] = Some out"
      and H: "H = (case hdr_data of None \<Rightarrow> 0 | Some h \<Rightarrow> length h)"
      and S: "S = (case sig_data of None \<Rightarrow> 0 | Some g \<Rightarrow> length g)"
      and T: "T = H + S + 4096 + length b + length k + length rd"
  shows "length out = T + pad512 T"
    and "\<And>i. T \<le> i \<Longrightarrow> i < T + pad512 T \<Longrightarrow> out ! i = Some 0xFF"
    and "\<And>i. i < length rd \<Longrightarrow> out ! (H + S + 4096 + length b + length k + i) = rd ! i"
    and "\<And>i. i < length k \<Longrightarrow> out ! (H + S + 4096 + length b + i) = k ! i"
    and "\<And>i. i < length b \<Longrightarrow> out ! (H + S + 4096 + i) = b ! i"
    and "\<And>i. i < length p \<Longrightarrow> i < 3064 \<Longrightarrow> out ! (H + S + 1032 + i) = p ! i"
    and "\<And>i. i < 4 \<Longrightarrow> out ! (H + S + 1028 + i) = Some (le32 (length rd) ! i)"
    and "\<And>i. i < 4 \<Longrightarrow> out ! (H + S + 1024 + i) = Some (le32 (length k) ! i)"
    and "\<And>i. i < length c \<Longrightarrow> i < 1024 \<Longrightarrow> hdr_data = None \<or> 56 \<le> H + S + i \<Longrightarrow>
           out ! (H + S + i) = c ! i"
proof -
  define L where "L = T + pad512 T"
  obtain b1 b2 b10 where
    fit: "H + S + length c \<le> L" "H + S + 1032 + length p \<le> L" and
    len: "length b10 = L" and
    n10: "\<And>i. i < L \<Longrightarrow> b10 ! i =
       (if T \<le> i then Some 0xFF
        else if H + S + 4096 + length b + length k \<le> i
          then rd ! (i - (H + S + 4096 + length b + length k))
        else if H + S + 4096 + length b \<le> i then k ! (i - (H + S + 4096 + length b))
        else if H + S + 4096 \<le> i then b ! (i - (H + S + 4096))
        else if H + S + 1032 \<le> i \<and> i < H + S + 1032 + length p then p ! (i - (H + S + 1032))
        else if H + S + 1028 \<le> i \<and> i < H + S + 1032
          then Some (le32 (length rd) ! (i - (H + S + 1028)))
        else if H + S + 1024 \<le> i \<and> i < H + S + 1028
          then Some (le32 (length k) ! (i - (H + S + 1024)))
        else if H + S \<le> i \<and> i < H + S + length c then c ! (i - (H + S))
        else b2 ! i)" and
    upd: "(case hdr_data of Some h \<Rightarrow> update_hdr (int L) b10 | None \<Rightarrow> Some b10) = Some out"
    by (rule layout_chain [OF lay H S T L_def]) (rule that, assumption+)
  have lo: "length out = L"
    using upd len by (cases hdr_data) (auto dest: update_hdr_Some(2))
  have o: "out ! i = b10 ! i" if "i < L" "hdr_data = None \<or> 56 \<le> i" for i
  proof (cases hdr_data)
    case None
    with upd show ?thesis by simp
  next
    case (Some h)
    with that(2) have "56 \<le> i" by simp
    then show ?thesis
      using update_hdr_Some(5) [of "int L" b10 out i] upd Some that(1) len by simp
  qed
  have TL: "T \<le> L" by (simp add: L_def)
  show "length out = T + pad512 T" using lo L_def by simp
  show "out ! i = Some 0xFF" if "T \<le> i" "i < T + pad512 T" for i
    using that o [of i] n10 [of i] T by (simp add: L_def)
  show "out ! (H + S + 4096 + length b + length k + i) = rd ! i" if "i < length rd" for i
    using that o [of "H + S + 4096 + length b + length k + i"]
      n10 [of "H + S + 4096 + length b + length k + i"] T TL by simp
  show "out ! (H + S + 4096 + length b + i) = k ! i" if "i < length k" for i
    using that o [of "H + S + 4096 + length b + i"] n10 [of "H + S + 4096 + length b + i"] T TL
    by simp
  show "out ! (H + S + 4096 + i) = b ! i" if "i < length b" for i
    using that o [of "H + S + 4096 + i"] n10 [of "H + S + 4096 + i"] T TL by simp
  show "out ! (H + S + 1032 + i) = p ! i" if "i < length p" "i < 3064" for i
    using that o [of "H + S + 1032 + i"] n10 [of "H + S + 1032 + i"] T TL by simp
  show "out ! (H + S + 1028 + i) = Some (le32 (length rd) ! i)" if "i < 4" for i
    using that o [of "H + S + 1028 + i"] n10 [of "H + S + 1028 + i"] T TL by simp
  show "out ! (H + S + 1024 + i) = Some (le32 (length k) ! i)" if "i < 4" for i
    using that o [of "H + S + 1024 + i"] n10 [of "H + S + 1024 + i"] T TL by simp
  show "out ! (H + S + i) = c ! i"
    if "i < length c" "i < 1024" "hdr_data = None \<or> 56 \<le> H + S + i" for i
    using that o [of "H + S + i"] n10 [of "H + S + i"] T TL by simp
qed


lemma sample_dir_files:
  "sample_dir ''hdr'' = Some (replicate 512 (Some 0xA5))"
  "sample_dir ''sig'' = Some (replicate 480 (Some 0x5A))"
  "sample_dir ''cmdline.txt'' = Some (map Some [0x61, 0x62, 0x63])"
  "sample_dir ''parameter'' = Some (map Some [0x11, 0x22, 0x33, 0x44, 0x55, 0x66, 0x77, 0x88])"
  "sample_dir ''bootstub'' = Some (replicate 4096 (Some 0xEE))"
  "sample_dir ''kernel'' = Some (replicate 500000 (Some 0x4B))"
  "sample_dir ''ramdisk.cpio.gz'' = Some (replicate 10000 (Some 0x52))"
  by (simp_all add: sample_dir_def)

lemma pack_fits:
  assumes files: "d ''cmdline.txt'' = Some c" "d ''parameter'' = Some p" "d ''bootstub'' = Some b"
      "d ''kernel'' = Some k" "d ''ramdisk.cpio.gz'' = Some rd"
    and H: "H = (case d ''hdr'' of None \<Rightarrow> 0 | Some h \<Rightarrow> length h)"
    and S: "S = (case d ''sig'' of None \<Rightarrow> 0 | Some g \<Rightarrow> length g)"
    and T: "T = H + S + 4096 + length b + length k + length rd"
    and fits: "T + 512 \<le> 2147483648" "length c \<le> 4096" "length p \<le> 3064"
  shows "\<exists>out. pack d True = Some \<lparr>status = 0, image = Some out, errors = []\<rparr>"
proof -
  have "pad512 T < 512" by (rule pad512_lt)
  then have "T + pad512 T < 2147483648" "H + S + length c \<le> T + pad512 T"
    "H + S + 1032 + length p \<le> T + pad512 T"
    using fits T by simp_all
  from layout_fits [OF H S T refl this]
  obtain out where "layout (d ''hdr'') (d ''sig'') [c, p, b, k, rd] = Some out" ..
  from pack_defined [OF files this] show ?thesis ..
qed

text \<open>
  C7.  Whatever the input files are, as long as the kernel has between 500000 and
  15000000 bytes and the ramdisk between 10000 and 300000000: in the image that
  \<open>pack\<close> writes, the kernel starts at offset header size + signature size + 4096 +
  bootstub size, the ramdisk follows it immediately, the length of the image is a
  multiple of 512, and the fewer than 512 cells after the ramdisk all hold \<open>0xFF\<close>.
  The run is defined (it writes an image and returns 0) whenever the sizes add up
  to less than \<open>2^31 - 512\<close> and the two small files fit the slots of the 4096-byte
  block.
\<close>

theorem pack_kernel_ramdisk_offsets:
  assumes files: "d ''cmdline.txt'' = Some c" "d ''parameter'' = Some p" "d ''bootstub'' = Some b"
      "d ''kernel'' = Some k" "d ''ramdisk.cpio.gz'' = Some rd"
    and K: "500000 \<le> length k" "length k \<le> 15000000"
    and R: "10000 \<le> length rd" "length rd \<le> 300000000"
    and H: "header_size = (case d ''hdr'' of None \<Rightarrow> 0 | Some h \<Rightarrow> length h)"
    and S: "signature_size = (case d ''sig'' of None \<Rightarrow> 0 | Some g \<Rightarrow> length g)"
    and Q: "kernel_off = header_size + signature_size + 4096 + length b"
  shows "(kernel_off + length k + length rd + 512 \<le> 2 ^ 31 \<and> length c \<le> 1024 \<and> length p \<le> 3064
            \<longrightarrow> (\<exists>out. pack d True = Some \<lparr>status = 0, image = Some out, errors = []\<rparr>))
       \<and> (\<forall>r out. pack d writable = Some r \<and> image r = Some out \<longrightarrow>
             take (length k) (drop kernel_off out) = k
           \<and> take (length rd) (drop (kernel_off + length k) out) = rd
           \<and> 512 dvd length out
           \<and> length out - (kernel_off + length k + length rd) < 512
           \<and> drop (kernel_off + length k + length rd) out =
               replicate (length out - (kernel_off + length k + length rd)) (Some 0xFF))"
proof (intro conjI allI impI)
  define T where "T = header_size + signature_size + 4096 + length b + length k + length rd"
  assume "kernel_off + length k + length rd + 512 \<le> 2 ^ 31 \<and> length c \<le> 1024 \<and> length p \<le> 3064"
  then show "\<exists>out. pack d True = Some \<lparr>status = 0, image = Some out, errors = []\<rparr>"
    using pack_fits [OF files H S T_def] by (simp add: T_def Q)
next
  fix r out
  assume run: "pack d writable = Some r \<and> image r = Some out"
  define T where "T = header_size + signature_size + 4096 + length b + length k + length rd"
  have lay: "layout (d ''hdr'') (d ''sig'') [c, p, b, k, rd] = Some out"
    using run files by (auto elim!: pack_image)
  note reg = layout_regions [OF lay H S T_def]
  have TQ: "T = kernel_off + length k + length rd" by (simp add: T_def Q)
  show "take (length k) (drop kernel_off out) = k"
    using reg(1,4) by (intro nth_equalityI) (simp_all add: TQ Q)
  show "take (length rd) (drop (kernel_off + length k) out) = rd"
    using reg(1,3) by (intro nth_equalityI) (simp_all add: TQ Q)
  show "512 dvd length out"
    using reg(1) pad512_dvd by simp
  show "length out - (kernel_off + length k + length rd) < 512"
    using reg(1) pad512_lt [of T] by (simp add: TQ)
  show "drop (kernel_off + length k + length rd) out =
          replicate (length out - (kernel_off + length k + length rd)) (Some 0xFF)"
    using reg(1,2) by (intro nth_equalityI) (simp_all add: TQ)
qed

text \<open>The run on \<open>sample_dir\<close>: kernel at 512 + 480 + 4096 + 4096 = 9184.\<close>

theorem pack_kernel_ramdisk_offsets_witness:
  "\<exists>out. pack sample_dir True = Some \<lparr>status = 0, image = Some out, errors = []\<rparr>
     \<and> take 500000 (drop 9184 out) = replicate 500000 (Some 0x4B)
     \<and> take 10000 (drop 509184 out) = replicate 10000 (Some 0x52)
     \<and> 512 dvd length out
     \<and> length out - 519184 < 512
     \<and> drop 519184 out = replicate (length out - 519184) (Some 0xFF)"
proof -
  note t = pack_kernel_ramdisk_offsets [where d = sample_dir and writable = True
      and header_size = 512 and signature_size = 480 and kernel_off = 9184,
      OF sample_dir_files(3-7)]
  have t': "(\<exists>out. pack sample_dir True = Some \<lparr>status = 0, image = Some out, errors = []\<rparr>)
       \<and> (\<forall>r out. pack sample_dir True = Some r \<and> image r = Some out \<longrightarrow>
             take 500000 (drop 9184 out) = replicate 500000 (Some 0x4B)
           \<and> take 10000 (drop 509184 out) = replicate 10000 (Some 0x52)
           \<and> 512 dvd length out
           \<and> length out - 519184 < 512
           \<and> drop 519184 out = replicate (length out - 519184) (Some 0xFF))"
    using t by (simp add: sample_dir_files) blast
  then obtain out where o: "pack sample_dir True = Some \<lparr>status = 0, image = Some out, errors = []\<rparr>"
    by blast
  with t' show ?thesis by auto
qed








lemma le32_decompose:
  fixes n :: nat
  assumes "n < 4294967296"
  shows "n mod 256 + 256 * (n div 256 mod 256) + 65536 * (n div 65536 mod 256)
           + 16777216 * (n div 16777216 mod 256) = n"
proof -
  have a: "n div 65536 = n div 256 div 256" "n div 16777216 = n div 256 div 256 div 256"
    by (simp_all add: div_mult2_eq [symmetric])
  have s: "n div 256 div 256 div 256 < 256" using assms by (simp add: a [symmetric])
  define q1 where "q1 = n div 256"
  define q2 where "q2 = q1 div 256"
  define q3 where "q3 = q2 div 256"
  have "n = 256 * q1 + n mod 256" "q1 = 256 * q2 + q1 mod 256" "q2 = 256 * q3 + q2 mod 256"
    "q3 mod 256 = q3"
    using s by (simp_all add: q1_def q2_def q3_def)
  then show ?thesis
    unfolding a q1_def [symmetric] q2_def [symmetric] q3_def [symmetric] by linarith
qed

lemma uint32_le_le32:
  assumes "n < 4294967296"
  shows "uint32_le (map Some (le32 n)) = Some n"
proof -
  have "n div 16777216 < 256" using assms by simp
  then have "n div 16777216 mod 256 = n div 16777216" by simp
  with le32_decompose [OF assms]
  have "n mod 256 + 256 * (n div 256 mod 256) + 65536 * (n div 65536 mod 256)
           + 16777216 * (n div 16777216) = n" by simp
  then show ?thesis
    using assms by (simp add: uint32_le_def le32_def unat_of_nat)
qed


lemma pack_sample_dir:
  obtains out where "pack sample_dir True = Some \<lparr>status = 0, image = Some out, errors = []\<rparr>"
    and "layout (sample_dir ''hdr'') (sample_dir ''sig'')
           [map Some [0x61, 0x62, 0x63],
            map Some [0x11, 0x22, 0x33, 0x44, 0x55, 0x66, 0x77, 0x88],
            replicate 4096 (Some 0xEE), replicate 500000 (Some 0x4B),
            replicate 10000 (Some 0x52)] = Some out"
proof -
  obtain out where o: "pack sample_dir True = Some \<lparr>status = 0, image = Some out, errors = []\<rparr>"
    using pack_fits [OF sample_dir_files(3-7) refl refl refl] by (auto simp: sample_dir_files)
  then have "layout (sample_dir ''hdr'') (sample_dir ''sig'')
           [map Some [0x61, 0x62, 0x63],
            map Some [0x11, 0x22, 0x33, 0x44, 0x55, 0x66, 0x77, 0x88],
            replicate 4096 (Some 0xEE), replicate 500000 (Some 0x4B),
            replicate 10000 (Some 0x52)] = Some out"
    by (auto elim!: pack_image simp: sample_dir_files)
  with o show ?thesis by (rule that)
qed

text \<open>
  C9, as amended.  In the image that \<open>pack\<close> writes, the cells from offset header
  size + signature size + 1032 on hold the \<^verbatim>\<open>parameter\<close> file from its first byte
  (all of it, up to the 3064 bytes that fit before the bootstub), and the two four-byte
  fields at header size + signature size + 1024 and + 1028 decode to the lengths of
  the kernel and of the ramdisk.
\<close>

theorem pack_parameter_block:
  assumes "pack d writable = Some r" and "image r = Some out"
      and files: "d ''parameter'' = Some p" "d ''kernel'' = Some k" "d ''ramdisk.cpio.gz'' = Some rd"
      and H: "header_size = (case d ''hdr'' of None \<Rightarrow> 0 | Some h \<Rightarrow> length h)"
      and S: "signature_size = (case d ''sig'' of None \<Rightarrow> 0 | Some g \<Rightarrow> length g)"
  shows "take (min (length p) 3064) (drop (header_size + signature_size + 1032) out) = take 3064 p
       \<and> uint32_le (take 4 (drop (header_size + signature_size + 1024) out)) = Some (length k)
       \<and> uint32_le (take 4 (drop (header_size + signature_size + 1028) out)) = Some (length rd)"
proof -
  obtain c b where lay: "layout (d ''hdr'') (d ''sig'') [c, p, b, k, rd] = Some out"
    using assms(1,2) files by (auto elim!: pack_image)
  define T where "T = header_size + signature_size + 4096 + length b + length k + length rd"
  note reg = layout_regions [OF lay H S T_def]
  obtain b1 b2 b10 where L: "T + pad512 T < 2147483648"
    and pfit: "header_size + signature_size + 1032 + length p \<le> T + pad512 T"
    by (rule layout_chain [OF lay H S T_def refl])
  have len4: "length (le32 x) = 4" for x by (simp add: le32_def)
  have "take 4 (drop (header_size + signature_size + 1024) out) = map Some (le32 (length k))"
    using reg(1,8) by (intro nth_equalityI) (simp_all add: T_def len4)
  moreover have "take 4 (drop (header_size + signature_size + 1028) out) = map Some (le32 (length rd))"
    using reg(1,7) by (intro nth_equalityI) (simp_all add: T_def len4)
  moreover have "take (min (length p) 3064) (drop (header_size + signature_size + 1032) out) = take 3064 p"
    using reg(1,6) pfit by (intro nth_equalityI) (simp_all add: T_def)
  moreover have "length k < 4294967296" "length rd < 4294967296"
    using L by (simp_all add: T_def)
  ultimately show ?thesis
    by (simp add: uint32_le_le32)
qed

text \<open>The run on \<open>sample_dir\<close>, where header and signature take 992 bytes.\<close>

theorem pack_parameter_block_witness:
  "\<exists>out. pack sample_dir True = Some \<lparr>status = 0, image = Some out, errors = []\<rparr>
     \<and> take 8 (drop 2024 out) = map Some [0x11, 0x22, 0x33, 0x44, 0x55, 0x66, 0x77, 0x88]
     \<and> uint32_le (take 4 (drop 2016 out)) = Some 500000
     \<and> uint32_le (take 4 (drop 2020 out)) = Some 10000"
proof -
  obtain out where o: "pack sample_dir True = Some \<lparr>status = 0, image = Some out, errors = []\<rparr>"
    by (rule pack_sample_dir)
  have m: "min (length (map Some [0x11, 0x22, 0x33, 0x44, 0x55, 0x66, 0x77, 0x88 :: u8])) 3064 = 8"
    by simp
  show ?thesis
    using o pack_parameter_block [OF o _ sample_dir_files(4,6,7) refl refl, unfolded m]
    by (simp add: sample_dir_files)
qed

text \<open>
  In \<open>sample_dir\<close> the \<^verbatim>\<open>parameter\<close> file has exactly eight bytes, and the image holds
  these eight bytes at 512 + 480 + 1032: the file is written from its first byte on, not
  from its ninth.
\<close>

theorem pack_parameter_whole_artifact:
  "sample_dir ''parameter'' = Some (map Some [0x11, 0x22, 0x33, 0x44, 0x55, 0x66, 0x77, 0x88])
   \<and> map_option (take 8 \<circ> drop (512 + 480 + 1032)) (Option.bind (pack sample_dir True) image)
       = Some (map Some [0x11, 0x22, 0x33, 0x44, 0x55, 0x66, 0x77, 0x88])"
proof -
  obtain out where o: "pack sample_dir True = Some \<lparr>status = 0, image = Some out, errors = []\<rparr>"
    and lay: "layout (sample_dir ''hdr'') (sample_dir ''sig'')
           [map Some [0x61, 0x62, 0x63],
            map Some [0x11, 0x22, 0x33, 0x44, 0x55, 0x66, 0x77, 0x88],
            replicate 4096 (Some 0xEE), replicate 500000 (Some 0x4B),
            replicate 10000 (Some 0x52)] = Some out"
    by (rule pack_sample_dir)
  note reg = layout_regions [OF lay refl refl refl]
  have "take 8 (drop 2024 out) = map Some [0x11, 0x22, 0x33, 0x44, 0x55, 0x66, 0x77, 0x88]"
    using reg(1) reg(6) by (intro nth_equalityI) (simp_all add: sample_dir_files)
  then show ?thesis
    using o by (simp add: sample_dir_files)
qed





section \<open>Properties of the Segment Locator\<close>

lemma fread_full:
  assumes "pos f + n \<le> length (data f)"
  shows "fread n f = (take n (drop (pos f) (data f)), f\<lparr>pos := pos f + n\<rparr>)"
  using assms by (simp add: fread_def Let_def min_absorb2)

lemma fseek_cur_back:
  assumes "n \<le> pos f"
  shows "fseek_cur (- int n) f = f\<lparr>pos := pos f - n\<rparr>"
  using assms by (simp add: fseek_cur_def)

lemma fseek_cur_fwd: "fseek_cur (int n) f = f\<lparr>pos := pos f + n\<rparr>"
  by (simp add: fseek_cur_def nat_add_distrib)

lemma take_Suc_drop:
  assumes "p < length xs"
  shows "take (Suc k) (drop p xs) = xs ! p # take k (drop (Suc p) xs)"
  using assms by (simp add: Cons_nth_drop_Suc [symmetric])

text \<open>
  The verdict of the probe as a function of the bytes at the offset: the first byte of
  the window, or the second when the first is NUL and the window has more than one byte.
\<close>

lemma check_byte_window:
  assumes "pos f + n \<le> length (data f)" and "1 \<le> n"
  shows "check_byte isalnum f (int n) mn =
           Some (let t = (if 1 < n \<and> data f ! pos f = 0 then data f ! Suc (pos f)
                          else data f ! pos f);
                     bytes = isalnum t
                 in if bytes > mn \<and> bytes < int n then 1 else 0, f)"
proof (cases "1 < n")
  case False
  with assms(2) have n: "n = 1" by simp
  have p: "pos f < length (data f)" using assms(1) n by simp
  have r: "fread (Suc 0) f = ([data f ! pos f], f\<lparr>pos := pos f + Suc 0\<rparr>)"
    using fread_full [of f "Suc 0"] assms(1) n p by (simp add: take_Suc_drop)
  have b: "fseek_cur (- 1) (f\<lparr>pos := Suc (pos f)\<rparr>) = f"
    using fseek_cur_back [of 1 "f\<lparr>pos := Suc (pos f)\<rparr>"] by simp
  show ?thesis
    by (simp add: check_byte_def n r b Let_def)
next
  case True
  then obtain m where n: "n = Suc (Suc m)"
    by (metis Suc_lessE less_Suc0 not_less_eq One_nat_def gr0_implies_Suc less_trans zero_less_one)
  have p: "pos f < length (data f)" "Suc (pos f) < length (data f)" using assms(1) n by simp_all
  have r1: "fread (Suc 0) f = ([data f ! pos f], f\<lparr>pos := Suc (pos f)\<rparr>)"
    using fread_full [of f "Suc 0"] p by (simp add: take_Suc_drop)
  have b1: "fseek_cur (- 1) (f\<lparr>pos := Suc (pos f)\<rparr>) = f"
    using fseek_cur_back [of 1 "f\<lparr>pos := Suc (pos f)\<rparr>"] by simp
  have rn: "fread n f = (data f ! pos f # take (Suc m) (drop (Suc (pos f)) (data f)),
                          f\<lparr>pos := pos f + n\<rparr>)"
    using fread_full [OF assms(1)] p by (simp add: n take_Suc_drop)
  have rm: "fread (Suc m) (f\<lparr>pos := Suc (pos f)\<rparr>) =
              (data f ! Suc (pos f) # take m (drop (Suc (Suc (pos f))) (data f)),
               f\<lparr>pos := pos f + n\<rparr>)"
    using fread_full [of "f\<lparr>pos := Suc (pos f)\<rparr>" "Suc m"] assms(1) p
    by (simp add: n take_Suc_drop)
  have bn: "fseek_cur (- int n) (f\<lparr>pos := pos f + n\<rparr>) = f"
    using fseek_cur_back [of n "f\<lparr>pos := pos f + n\<rparr>"] by simp
  have i: "int n - 1 = int (Suc m)" "nat (int n) = n" "1 < int n" using n by simp_all
  show ?thesis
  proof (cases "data f ! pos f = 0")
    case z: True
    show ?thesis
      unfolding check_byte_def Let_def
      using True z by (simp add: r1 i rm bn del: of_nat_Suc)
  next
    case nz: False
    show ?thesis
      unfolding check_byte_def Let_def
      using True nz by (simp add: r1 b1 i rn bn del: of_nat_Suc)
  qed
qed

lemma check_byte_restores:
  assumes "pos f + n \<le> length (data f)" and "1 \<le> n"
  shows "\<exists>v. check_byte isalnum f (int n) mn = Some (v, f) \<and> (v = 0 \<or> v = 1)"
  unfolding check_byte_window [OF assms] by (simp add: Let_def)

lemma probe_restores:
  assumes "off + n \<le> length bytes" and "1 \<le> n"
  obtains v where "probe isalnum bytes off (int n) mn = Some v" and "v = 0 \<or> v = 1"
    and "check_byte isalnum \<lparr>data = bytes, pos = off\<rparr> (int n) mn = Some (v, \<lparr>data = bytes, pos = off\<rparr>)"
  using check_byte_restores [of "\<lparr>data = bytes, pos = off\<rparr>" n isalnum mn] assms
  by (auto simp: probe_def)

lemma fseek_cur_data [simp]: "data (fseek_cur off f) = data f"
  by (simp add: fseek_cur_def)

lemma fread_data: "fread n f = (got, f') \<Longrightarrow> data f' = data f"
  by (auto simp: fread_def Let_def)

lemma check_byte_data:
  assumes "check_byte isalnum f sz mn = Some (v, f')"
  shows "data f' = data f"
proof -
  obtain sz' f2 where
    a: "(if sz > 1
            then (case fread 1 f of
                    ([], f1) \<Rightarrow> None
                  | (b # _, f1) \<Rightarrow>
                      if b = 0 then Some (sz - 1, f1)
                      else Some (sz, fseek_cur (- 1) f1))
            else Some (sz, f)) = Some (sz', f2)"
    and b: "(case fread (nat sz') f2 of
             ([], f3) \<Rightarrow> None
           | (t # _, f3) \<Rightarrow>
               let f4 = fseek_cur (- sz) f3;
                   bytes = isalnum t
               in Some (if bytes > mn \<and> bytes < sz then 1 else 0, f4)) = Some (v, f')"
    using assms unfolding check_byte_def Let_def
    by (auto split: option.splits)
  have d2: "data f2 = data f"
  proof (cases "sz > 1")
    case False
    with a show ?thesis by simp
  next
    case True
    obtain got f1 where r: "fread 1 f = (got, f1)" by (cases "fread 1 f")
    with a True show ?thesis
      using fread_data [OF r] by (auto split: list.splits if_splits)
  qed
  obtain got f3 where r: "fread (nat sz') f2 = (got, f3)" by (cases "fread (nat sz') f2")
  with b have "f' = fseek_cur (- sz) f3"
    by (auto simp: Let_def split: list.splits)
  then show ?thesis
    using fread_data [OF r] d2 by simp
qed

lemma write_buffer_Some:
  assumes "write_buffer f sz name out = Some (f', out')"
  shows "data f' = data f" and "0 \<le> sz"
    and "pos f' = pos f + length (take (nat sz) (drop (pos f) (data f)))"
    and "out' = out @ [(name, filled (nat sz) (take (nat sz) (drop (pos f) (data f))))]"
  using assms by (auto simp: write_buffer_def fread_def Let_def split: if_splits)

lemma filled_full: "length got = n \<Longrightarrow> filled n got = map Some got"
  by (simp add: filled_def)

lemma unpack_hdr_SomeE:
  assumes "unpack_hdr isalnum s = Some (h, s')"
  obtains v f1 f2 out where
    "check_byte isalnum (strm s) 4 1 = Some (v, f1)"
    "(if v = 0 then write_buffer f1 512 ''hdr'' (written s) else Some (f1, written s)) = Some (f2, out)"
    "h = int (pos f2)"
    "s' = \<lparr>strm = f2, written = out, printed = printed s @ [(''header size'', h)]\<rparr>"
  using assms unfolding unpack_hdr_def Let_def ftell_def
  by (auto split: option.splits prod.splits)

lemma unpack_hdr_frame:
  assumes "unpack_hdr isalnum s = Some (h, s')"
  shows "data (strm s') = data (strm s)" and "h = int (pos (strm s'))"
    and "printed s' = printed s @ [(''header size'', h)]"
    and "written s' = written s \<or> (\<exists>c. written s' = written s @ [(''hdr'', c)])"
proof -
  obtain v f1 f2 out where
    c: "check_byte isalnum (strm s) 4 1 = Some (v, f1)" and
    w: "(if v = 0 then write_buffer f1 512 ''hdr'' (written s) else Some (f1, written s)) = Some (f2, out)" and
    h: "h = int (pos f2)" and
    s': "s' = \<lparr>strm = f2, written = out, printed = printed s @ [(''header size'', h)]\<rparr>"
    using assms by (rule unpack_hdr_SomeE)
  have "data f2 = data f1 \<and> (out = written s \<or> (\<exists>c. out = written s @ [(''hdr'', c)]))"
    using w write_buffer_Some(1,4) [of f1 512 "''hdr''" "written s" f2 out]
    by (cases "v = 0") auto
  then show "data (strm s') = data (strm s)"
    and "written s' = written s \<or> (\<exists>c. written s' = written s @ [(''hdr'', c)])"
    using check_byte_data [OF c] s' by simp_all
  show "h = int (pos (strm s'))" using h s' by simp
  show "printed s' = printed s @ [(''header size'', h)]" using s' by simp
qed

lemma unpack_hdr_start:
  assumes "unpack_hdr isalnum \<lparr>strm = \<lparr>data = bytes, pos = 0\<rparr>, written = [], printed = []\<rparr>
             = Some (h, s')"
      and "512 \<le> length bytes"
  shows "probe isalnum bytes 0 4 1 = Some 1 \<or> probe isalnum bytes 0 4 1 = Some 0"
    and "probe isalnum bytes 0 4 1 = Some 1 \<Longrightarrow> h = 0 \<and> written s' = []"
    and "probe isalnum bytes 0 4 1 = Some 0 \<Longrightarrow>
           h = 512 \<and> written s' = [(''hdr'', map Some (take 512 bytes))]"
proof -
  obtain v where v: "probe isalnum bytes 0 4 1 = Some v" "v = 0 \<or> v = 1"
    and c: "check_byte isalnum \<lparr>data = bytes, pos = 0\<rparr> 4 1 = Some (v, \<lparr>data = bytes, pos = 0\<rparr>)"
    using probe_restores [of 0 4 bytes isalnum 1] assms(2) by auto
  show "probe isalnum bytes 0 4 1 = Some 1 \<or> probe isalnum bytes 0 4 1 = Some 0"
    using v by auto
  show "h = 0 \<and> written s' = []" if "probe isalnum bytes 0 4 1 = Some 1"
    using that v assms(1) by (auto simp: unpack_hdr_def c Let_def ftell_def)
  show "h = 512 \<and> written s' = [(''hdr'', map Some (take 512 bytes))]"
    if "probe isalnum bytes 0 4 1 = Some 0"
    using that v assms
    by (auto simp: unpack_hdr_def c Let_def ftell_def write_buffer_def fread_def
        filled_full min_absorb2)
qed

lemma sig_loop_data:
  "sig_loop isalnum ds f = Some f' \<Longrightarrow> data f' = data f"
proof (induction ds arbitrary: f)
  case Nil
  then show ?case by simp
next
  case (Cons d ds)
  obtain v f1 where c: "check_byte isalnum (fseek_cur d f) 4 1 = Some (v, f1)"
    using Cons.prems by (auto split: option.splits)
  have d1: "data f1 = data f" using check_byte_data [OF c] by simp
  show ?case
  proof (cases "v \<noteq> 0")
    case True
    with Cons.prems c d1 show ?thesis by simp
  next
    case False
    with Cons.prems c have "sig_loop isalnum ds f1 = Some f'" by simp
    from Cons.IH [OF this] d1 show ?thesis by simp
  qed
qed

text \<open>The distance the signature loop advances, as a function of the probes.\<close>

lemma sig_loop_eval:
  assumes "pos f + 1028 \<le> length (data f)"
  shows "sig_loop isalnum sig_deltas f =
           Some (f\<lparr>pos := pos f +
             (if probe isalnum (data f) (pos f) 4 1 = Some 1 then 0
              else if probe isalnum (data f) (pos f + 480) 4 1 = Some 1 then 480
              else if probe isalnum (data f) (pos f + 728) 4 1 = Some 1 then 728
              else 1024)\<rparr>)"
proof -
  have f: "f = \<lparr>data = data f, pos = pos f\<rparr>" by simp
  have st: "f\<lparr>pos := pos f + k\<rparr> = \<lparr>data = data f, pos = pos f + k\<rparr>" for k by simp
  have s0: "fseek_cur 0 g = g" for g by (simp add: fseek_cur_def)
  have sk: "fseek_cur (int k) (f\<lparr>pos := pos f + j\<rparr>) = \<lparr>data = data f, pos = pos f + (j + k)\<rparr>"
    for j k by (simp add: fseek_cur_fwd)
  have sk0: "fseek_cur (int k) f = \<lparr>data = data f, pos = pos f + k\<rparr>"
    for k by (simp add: fseek_cur_fwd)
  obtain v0 where v0: "probe isalnum (data f) (pos f) 4 1 = Some v0" "v0 = 0 \<or> v0 = 1"
    and c0: "check_byte isalnum \<lparr>data = data f, pos = pos f\<rparr> 4 1
               = Some (v0, \<lparr>data = data f, pos = pos f\<rparr>)"
    using probe_restores [of "pos f" 4 "data f" isalnum 1] assms by auto
  obtain v1 where v1: "probe isalnum (data f) (pos f + 480) 4 1 = Some v1" "v1 = 0 \<or> v1 = 1"
    and c1: "check_byte isalnum \<lparr>data = data f, pos = pos f + 480\<rparr> 4 1
               = Some (v1, \<lparr>data = data f, pos = pos f + 480\<rparr>)"
    using probe_restores [of "pos f + 480" 4 "data f" isalnum 1] assms by auto
  obtain v2 where v2: "probe isalnum (data f) (pos f + 728) 4 1 = Some v2" "v2 = 0 \<or> v2 = 1"
    and c2: "check_byte isalnum \<lparr>data = data f, pos = pos f + 728\<rparr> 4 1
               = Some (v2, \<lparr>data = data f, pos = pos f + 728\<rparr>)"
    using probe_restores [of "pos f + 728" 4 "data f" isalnum 1] assms by auto
  obtain v3 where c3: "check_byte isalnum \<lparr>data = data f, pos = pos f + 1024\<rparr> 4 1
               = Some (v3, \<lparr>data = data f, pos = pos f + 1024\<rparr>)"
    using probe_restores [of "pos f + 1024" 4 "data f" isalnum 1] assms by auto
  have e0: "fseek_cur 0 f = \<lparr>data = data f, pos = pos f\<rparr>" by (simp add: s0)
  have e1: "fseek_cur 480 \<lparr>data = data f, pos = pos f\<rparr> = \<lparr>data = data f, pos = pos f + 480\<rparr>"
    using fseek_cur_fwd [of 480 "\<lparr>data = data f, pos = pos f\<rparr>"] by simp
  have e2: "fseek_cur 248 \<lparr>data = data f, pos = pos f + 480\<rparr> = \<lparr>data = data f, pos = pos f + 728\<rparr>"
    using fseek_cur_fwd [of 248 "\<lparr>data = data f, pos = pos f + 480\<rparr>"] by simp
  have e3: "fseek_cur 296 \<lparr>data = data f, pos = pos f + 728\<rparr> = \<lparr>data = data f, pos = pos f + 1024\<rparr>"
    using fseek_cur_fwd [of 296 "\<lparr>data = data f, pos = pos f + 728\<rparr>"] by simp
  show ?thesis
    using v0 v1 v2
    by (auto simp: sig_deltas_def e0 e1 e2 e3 c0 c1 c2 c3)
qed

lemma unpack_sig_SomeE:
  assumes "unpack_sig isalnum h s = Some (g, s')"
  obtains f1 f2 out where
    "sig_loop isalnum sig_deltas (strm s) = Some f1"
    "g = int (pos f1) - h"
    "(if g > 0 then write_buffer (fseek_cur (- g) f1) g ''sig'' (written s)
      else Some (f1, written s)) = Some (f2, out)"
    "s' = \<lparr>strm = f2, written = out, printed = printed s @ [(''sig size'', g)]\<rparr>"
  using assms unfolding unpack_sig_def Let_def ftell_def
  by (auto split: option.splits prod.splits)

lemma unpack_sig_frame:
  assumes "unpack_sig isalnum h s = Some (g, s')"
  shows "data (strm s') = data (strm s)"
    and "printed s' = printed s @ [(''sig size'', g)]"
    and "(g \<le> 0 \<and> written s' = written s) \<or> (0 < g \<and> (\<exists>c. written s' = written s @ [(''sig'', c)]))"
proof -
  obtain f1 f2 out where
    l: "sig_loop isalnum sig_deltas (strm s) = Some f1" and
    w: "(if g > 0 then write_buffer (fseek_cur (- g) f1) g ''sig'' (written s)
         else Some (f1, written s)) = Some (f2, out)" and
    s': "s' = \<lparr>strm = f2, written = out, printed = printed s @ [(''sig size'', g)]\<rparr>"
    using assms by (rule unpack_sig_SomeE)
  have "data f2 = data f1 \<and>
        ((g \<le> 0 \<and> out = written s) \<or> (0 < g \<and> (\<exists>c. out = written s @ [(''sig'', c)])))"
    using w write_buffer_Some(1,4) [of "fseek_cur (- g) f1" g "''sig''" "written s" f2 out]
    by (cases "g > 0") auto
  then show "data (strm s') = data (strm s)"
    and "(g \<le> 0 \<and> written s' = written s) \<or> (0 < g \<and> (\<exists>c. written s' = written s @ [(''sig'', c)]))"
    using sig_loop_data [OF l] s' by simp_all
  show "printed s' = printed s @ [(''sig size'', g)]" using s' by simp
qed

lemma unpack_sig_pos:
  assumes "unpack_sig isalnum h s = Some (g, s')"
      and "h = int (pos (strm s))" and "nat (h + g) \<le> length (data (strm s))"
  shows "int (pos (strm s')) = h + g"
    and "0 < g \<Longrightarrow> written s' =
           written s @ [(''sig'', map Some (take (nat g) (drop (pos (strm s)) (data (strm s)))))]"
proof -
  obtain f1 f2 out where
    l: "sig_loop isalnum sig_deltas (strm s) = Some f1" and
    g: "g = int (pos f1) - h" and
    w: "(if g > 0 then write_buffer (fseek_cur (- g) f1) g ''sig'' (written s)
         else Some (f1, written s)) = Some (f2, out)" and
    s': "s' = \<lparr>strm = f2, written = out, printed = printed s @ [(''sig size'', g)]\<rparr>"
    using assms(1) by (rule unpack_sig_SomeE)
  have d1: "data f1 = data (strm s)" by (rule sig_loop_data [OF l])
  show "int (pos (strm s')) = h + g"
  proof (cases "g > 0")
    case False
    with w s' g show ?thesis by simp
  next
    case True
    have b: "fseek_cur (- g) f1 = f1\<lparr>pos := pos (strm s)\<rparr>"
      using g assms(2) by (simp add: fseek_cur_def)
    have "pos f2 = pos (strm s) + length (take (nat g) (drop (pos (strm s)) (data (strm s))))"
      using w True write_buffer_Some(3) [of "fseek_cur (- g) f1" g "''sig''" "written s" f2 out]
      by (simp add: b d1)
    then show ?thesis
      using assms(2,3) True s' by (simp add: min_absorb2)
  qed
  show "written s' =
           written s @ [(''sig'', map Some (take (nat g) (drop (pos (strm s)) (data (strm s)))))]"
    if "0 < g"
  proof -
    have b: "fseek_cur (- g) f1 = f1\<lparr>pos := pos (strm s)\<rparr>"
      using g assms(2) by (simp add: fseek_cur_def)
    have "out = written s @ [(''sig'', filled (nat g) (take (nat g) (drop (pos (strm s)) (data (strm s)))))]"
      using w that write_buffer_Some(4) [of "fseek_cur (- g) f1" g "''sig''" "written s" f2 out]
      by (simp add: b d1)
    moreover have "length (take (nat g) (drop (pos (strm s)) (data (strm s)))) = nat g"
      using assms(2,3) that by (simp add: min_absorb2)
    ultimately show ?thesis
      using s' by (simp add: filled_full)
  qed
qed

lemma unpack_sig_value:
  assumes "unpack_sig isalnum h s = Some (g, s')"
      and "h = int (pos (strm s))" and "pos (strm s) + 1028 \<le> length (data (strm s))"
  shows "g = (if probe isalnum (data (strm s)) (pos (strm s)) 4 1 = Some 1 then 0
              else if probe isalnum (data (strm s)) (pos (strm s) + 480) 4 1 = Some 1 then 480
              else if probe isalnum (data (strm s)) (pos (strm s) + 728) 4 1 = Some 1 then 728
              else 1024)"
proof -
  obtain f1 where
    l: "sig_loop isalnum sig_deltas (strm s) = Some f1" and
    g: "g = int (pos f1) - h"
    using assms(1) by (rule unpack_sig_SomeE)
  show ?thesis
    using l g assms(2) unfolding sig_loop_eval [OF assms(3)] by auto
qed

lemma strlen_filled:
  "strlen (map Some got @ replicate k None) =
     (if 0 \<in> set got then Some (length (takeWhile (\<lambda>b. b \<noteq> 0) got)) else None)"
proof (induction got)
  case Nil
  show ?case by (cases k) simp_all
next
  case (Cons b got)
  then show ?case by auto
qed

lemma take_takeWhile_Some:
  "take (length (takeWhile P got)) (map Some got @ rest) = map Some (takeWhile P got)"
proof -
  have "length (takeWhile P got) \<le> length got" by (rule length_takeWhile_le)
  then have "take (length (takeWhile P got)) (map Some got @ rest)
               = map Some (take (length (takeWhile P got)) got)"
    by (simp add: take_map)
  then show ?thesis by (simp add: takeWhile_eq_take [symmetric])
qed

lemma write_string_filled:
  "write_string (filled n got) name out =
     (if 0 \<in> set got then Some (out @ [(name, map Some (takeWhile (\<lambda>b. b \<noteq> 0) got))])
      else None)"
proof (cases "0 \<in> set got")
  case False
  then show ?thesis
    unfolding write_string_def filled_def strlen_filled by simp
next
  case True
  have "write_string (filled n got) name out =
          Some (out @ [(name, take (length (takeWhile (\<lambda>b. b \<noteq> 0) got))
                         (map Some got @ replicate (n - length got) None))])"
    unfolding write_string_def filled_def strlen_filled using True by simp
  then show ?thesis
    unfolding take_takeWhile_Some using True by simp
qed

lemma unpack_cmdline_Some:
  assumes "unpack_cmdline s = Some s'"
  defines "got \<equiv> take 1024 (drop (pos (strm s)) (data (strm s)))"
  shows "0 \<in> set got"
    and "s' = s\<lparr>strm := (strm s)\<lparr>pos := pos (strm s) + length got\<rparr>,
                written := written s @ [(''cmdline.txt'', map Some (takeWhile (\<lambda>b. b \<noteq> 0) got))]\<rparr>"
proof -
  have "0 \<in> set got \<and>
    s' = s\<lparr>strm := (strm s)\<lparr>pos := pos (strm s) + length got\<rparr>,
            written := written s @ [(''cmdline.txt'', map Some (takeWhile (\<lambda>b. b \<noteq> 0) got))]\<rparr>"
    using assms(1)
    unfolding unpack_cmdline_def fread_def Let_def write_string_filled got_def [symmetric]
    by (auto split: if_splits)
  then show "0 \<in> set got"
    and "s' = s\<lparr>strm := (strm s)\<lparr>pos := pos (strm s) + length got\<rparr>,
                written := written s @ [(''cmdline.txt'', map Some (takeWhile (\<lambda>b. b \<noteq> 0) got))]\<rparr>"
    by simp_all
qed

lemma unpack_info_Some:
  assumes "unpack_info s = Some (kb, rb, s')"
  shows "data (strm s') = data (strm s)" and "printed s' = printed s"
    and "\<exists>c. written s' = written s @ [(''parameter'', c)]"
    and "pos (strm s) + 4 \<le> length (data (strm s)) \<Longrightarrow>
           kb = map Some (take 4 (drop (pos (strm s)) (data (strm s))))"
    and "pos (strm s) + 8 \<le> length (data (strm s)) \<Longrightarrow>
           rb = map Some (take 4 (drop (pos (strm s) + 4) (data (strm s))))"
    and "pos (strm s) + 16 \<le> length (data (strm s)) \<Longrightarrow>
           written s' = written s @
               [(''parameter'', map Some (take 8 (drop (pos (strm s) + 8) (data (strm s)))))]
         \<and> pos (strm s') = pos (strm s) + 3072"
proof -
  obtain kgot f1 where r1: "fread 4 (strm s) = (kgot, f1)" by (cases "fread 4 (strm s)")
  obtain rgot f2 where r2: "fread 4 f1 = (rgot, f2)" by (cases "fread 4 f1")
  obtain f3 out where w: "write_buffer f2 8 ''parameter'' (written s) = Some (f3, out)"
    and kb: "kb = filled 4 kgot" and rb: "rb = filled 4 rgot"
    and s': "s' = s\<lparr>strm := fseek_cur (3072 - 16) f3, written := out\<rparr>"
    using assms unfolding unpack_info_def r1 by (auto simp: r2 split: option.splits)
  note wb = write_buffer_Some [OF w]
  show "data (strm s') = data (strm s)"
    using fread_data [OF r1] fread_data [OF r2] wb(1) s' by simp
  show "printed s' = printed s" using s' by simp
  show "\<exists>c. written s' = written s @ [(''parameter'', c)]" using wb(4) s' by simp
  have e1: "kgot = take 4 (drop (pos (strm s)) (data (strm s)))"
       "f1 = (strm s)\<lparr>pos := pos (strm s) + 4\<rparr>"
    if "pos (strm s) + 4 \<le> length (data (strm s))"
    using r1 fread_full [of "strm s" 4] that by simp_all
  have e2: "rgot = take 4 (drop (pos (strm s) + 4) (data (strm s)))"
       "f2 = (strm s)\<lparr>pos := pos (strm s) + 8\<rparr>"
    if "pos (strm s) + 8 \<le> length (data (strm s))"
    using r2 fread_full [of f1 4] that e1 by simp_all
  show "kb = map Some (take 4 (drop (pos (strm s)) (data (strm s))))"
    if "pos (strm s) + 4 \<le> length (data (strm s))"
    using that e1 by (simp add: kb filled_full)
  show "rb = map Some (take 4 (drop (pos (strm s) + 4) (data (strm s))))"
    if "pos (strm s) + 8 \<le> length (data (strm s))"
    using that e2 by (simp add: rb filled_full)
  show "written s' = written s @
               [(''parameter'', map Some (take 8 (drop (pos (strm s) + 8) (data (strm s)))))]
         \<and> pos (strm s') = pos (strm s) + 3072"
    if long: "pos (strm s) + 16 \<le> length (data (strm s))"
  proof -
    have l: "length (take 8 (drop (pos (strm s) + 8) (data (strm s)))) = 8"
      using long by simp
    have "fseek_cur (3072 - 16) f3 = f3\<lparr>pos := pos f3 + 3056\<rparr>"
      using fseek_cur_fwd [of 3056 f3] by simp
    then show ?thesis
      using wb(3,4) l s' e2 long by (simp add: filled_full)
  qed
qed

lemma unpack_bootstub_SomeE:
  assumes "unpack_bootstub isalnum h g s = Some (bsz, s')"
  obtains v f1 f3 out where
    "check_byte isalnum (fseek_cur 4096 (strm s)) 2 0 = Some (v, f1)"
    "bsz = int (pos (if v \<noteq> 0 then fseek_cur 4096 f1 else f1)) - h - g - 4096"
    "write_buffer (fseek_cur (- bsz) (if v \<noteq> 0 then fseek_cur 4096 f1 else f1)) bsz ''bootstub''
       (written s) = Some (f3, out)"
    "s' = \<lparr>strm = f3, written = out, printed = printed s @ [(''bootstub size'', bsz)]\<rparr>"
  using assms unfolding unpack_bootstub_def Let_def ftell_def
  by (auto split: option.splits prod.splits)

lemma unpack_bootstub_frame:
  assumes "unpack_bootstub isalnum h g s = Some (bsz, s')"
  shows "data (strm s') = data (strm s)"
    and "printed s' = printed s @ [(''bootstub size'', bsz)]"
    and "\<exists>c. written s' = written s @ [(''bootstub'', c)]"
proof -
  obtain v f1 f3 out where
    c: "check_byte isalnum (fseek_cur 4096 (strm s)) 2 0 = Some (v, f1)" and
    w: "write_buffer (fseek_cur (- bsz) (if v \<noteq> 0 then fseek_cur 4096 f1 else f1)) bsz ''bootstub''
       (written s) = Some (f3, out)" and
    s': "s' = \<lparr>strm = f3, written = out, printed = printed s @ [(''bootstub size'', bsz)]\<rparr>"
    using assms by (rule unpack_bootstub_SomeE)
  show "data (strm s') = data (strm s)"
    using check_byte_data [OF c] write_buffer_Some(1) [OF w] s' by simp
  show "printed s' = printed s @ [(''bootstub size'', bsz)]" using s' by simp
  show "\<exists>c. written s' = written s @ [(''bootstub'', c)]"
    using write_buffer_Some(4) [OF w] s' by simp
qed


lemma unpack_SomeE:
  assumes "unpack isalnum filename (Some bytes) = Some r"
  obtains h s1 g s2 s3 kb rb s4 bsz s5 where
    "unpack_hdr isalnum \<lparr>strm = \<lparr>data = bytes, pos = 0\<rparr>, written = [], printed = []\<rparr>
       = Some (h, s1)"
    "unpack_sig isalnum h s1 = Some (g, s2)"
    "unpack_cmdline s2 = Some s3"
    "unpack_info s3 = Some (kb, rb, s4)"
    "unpack_bootstub isalnum h g s4 = Some (bsz, s5)"
    "unpack_kernel_ramdisk kb rb s5 = Some r"
  using assms unfolding unpack_def
  by (auto split: option.splits prod.splits)

lemma unpack_kernel_ramdisk_Some:
  assumes "unpack_kernel_ramdisk kb rb s = Some r"
  obtains ksz where "uint32_le kb = Some ksz"
    and "ksz < 500000 \<or> 15000000 < ksz \<Longrightarrow>
           r = \<lparr>ret = 1, files = written s, stdout = printed s, stderr = [Kernel_size_wrong]\<rparr>"
    and "500000 \<le> ksz \<Longrightarrow> ksz \<le> 15000000 \<Longrightarrow>
           \<exists>rsz kc f1. uint32_le rb = Some rsz
             \<and> write_buffer (strm s) (int ksz) ''kernel'' (written s)
                  = Some (f1, written s @ [(''kernel'', kc)])
             \<and> (rsz < 10000 \<or> 300000000 < rsz \<longrightarrow>
                  r = \<lparr>ret = 1, files = written s @ [(''kernel'', kc)],
                       stdout = printed s @ [(''kernel size'', int ksz)],
                       stderr = [Ramdisk_size_wrong]\<rparr>)
             \<and> (10000 \<le> rsz \<and> rsz \<le> 300000000 \<longrightarrow>
                  (\<exists>rc f2. write_buffer f1 (int rsz) ''ramdisk.cpio.gz'' (written s @ [(''kernel'', kc)])
                             = Some (f2, written s @ [(''kernel'', kc), (''ramdisk.cpio.gz'', rc)])
                    \<and> r = \<lparr>ret = 0, files = written s @ [(''kernel'', kc), (''ramdisk.cpio.gz'', rc)],
                            stdout = printed s @ [(''kernel size'', int ksz), (''ramdisk size'', int rsz)],
                            stderr = []\<rparr>))"
proof -
  obtain ksz where k: "uint32_le kb = Some ksz"
    using assms unfolding unpack_kernel_ramdisk_def by (auto split: option.splits)
  show ?thesis
  proof (rule that [OF k])
    show "r = \<lparr>ret = 1, files = written s, stdout = printed s, stderr = [Kernel_size_wrong]\<rparr>"
      if "ksz < 500000 \<or> 15000000 < ksz"
      using assms that unfolding unpack_kernel_ramdisk_def k by auto
    show "\<exists>rsz kc f1. uint32_le rb = Some rsz
             \<and> write_buffer (strm s) (int ksz) ''kernel'' (written s)
                  = Some (f1, written s @ [(''kernel'', kc)])
             \<and> (rsz < 10000 \<or> 300000000 < rsz \<longrightarrow>
                  r = \<lparr>ret = 1, files = written s @ [(''kernel'', kc)],
                       stdout = printed s @ [(''kernel size'', int ksz)],
                       stderr = [Ramdisk_size_wrong]\<rparr>)
             \<and> (10000 \<le> rsz \<and> rsz \<le> 300000000 \<longrightarrow>
                  (\<exists>rc f2. write_buffer f1 (int rsz) ''ramdisk.cpio.gz'' (written s @ [(''kernel'', kc)])
                             = Some (f2, written s @ [(''kernel'', kc), (''ramdisk.cpio.gz'', rc)])
                    \<and> r = \<lparr>ret = 0, files = written s @ [(''kernel'', kc), (''ramdisk.cpio.gz'', rc)],
                            stdout = printed s @ [(''kernel size'', int ksz), (''ramdisk size'', int rsz)],
                            stderr = []\<rparr>))"
      if kr: "500000 \<le> ksz" "ksz \<le> 15000000"
    proof -
      obtain f1 out1 where w1: "write_buffer (strm s) (int ksz) ''kernel'' (written s) = Some (f1, out1)"
        using assms kr unfolding unpack_kernel_ramdisk_def k by (auto split: option.splits)
      obtain kc where o1: "out1 = written s @ [(''kernel'', kc)]"
        using write_buffer_Some(4) [OF w1] by simp
      obtain rsz where rz: "uint32_le rb = Some rsz"
        using assms kr
        by (auto simp: unpack_kernel_ramdisk_def k w1 Let_def split: option.splits)
      show ?thesis
      proof (cases "rsz < 10000 \<or> 300000000 < rsz")
        case True
        then show ?thesis
          using assms kr
          by (auto simp: unpack_kernel_ramdisk_def k w1 rz o1 Let_def)
      next
        case False
        then obtain f2 out2 where
          w2: "write_buffer f1 (int rsz) ''ramdisk.cpio.gz'' (written s @ [(''kernel'', kc)]) = Some (f2, out2)"
          using assms kr
          by (auto simp: unpack_kernel_ramdisk_def k w1 rz o1 Let_def split: option.splits)
        obtain rc where o2: "out2 = written s @ [(''kernel'', kc), (''ramdisk.cpio.gz'', rc)]"
          using write_buffer_Some(4) [OF w2] by simp
        show ?thesis
          using assms kr False
          by (auto simp: unpack_kernel_ramdisk_def k w1 rz o1 Let_def w2 o2)
      qed
    qed
  qed
qed

text \<open>The shape of every run of \<open>unpack\<close> on a file that opens.\<close>

lemma unpack_run:
  assumes "unpack isalnum filename (Some bytes) = Some r"
  obtains h s1 g s2 s3 kb rb s4 bsz s5 hp sp ct pc bc kp ps where
    "unpack_hdr isalnum \<lparr>strm = \<lparr>data = bytes, pos = 0\<rparr>, written = [], printed = []\<rparr>
       = Some (h, s1)"
    "unpack_sig isalnum h s1 = Some (g, s2)"
    "unpack_cmdline s2 = Some s3"
    "unpack_info s3 = Some (kb, rb, s4)"
    "unpack_bootstub isalnum h g s4 = Some (bsz, s5)"
    "unpack_kernel_ramdisk kb rb s5 = Some r"
    "data (strm s1) = bytes" "data (strm s2) = bytes" "data (strm s3) = bytes"
    "data (strm s4) = bytes"
    "h = int (pos (strm s1))"
    "written s1 = hp" "written s2 = hp @ sp" "written s3 = hp @ sp @ [(''cmdline.txt'', ct)]"
    "written s4 = hp @ sp @ [(''cmdline.txt'', ct), (''parameter'', pc)]"
    "written s5 = hp @ sp @ [(''cmdline.txt'', ct), (''parameter'', pc), (''bootstub'', bc)]"
    "hp = [] \<or> (\<exists>c. hp = [(''hdr'', c)])"
    "(g \<le> 0 \<and> sp = []) \<or> (0 < g \<and> (\<exists>c. sp = [(''sig'', c)]))"
    "files r = hp @ sp @ [(''cmdline.txt'', ct), (''parameter'', pc), (''bootstub'', bc)] @ kp"
    "kp = [] \<or> (\<exists>kc. kp = [(''kernel'', kc)])
       \<or> (\<exists>kc rc. kp = [(''kernel'', kc), (''ramdisk.cpio.gz'', rc)])"
    "stdout r = [(''header size'', h), (''sig size'', g), (''bootstub size'', bsz)] @ ps"
proof -
  obtain h s1 g s2 s3 kb rb s4 bsz s5 where
    p1: "unpack_hdr isalnum \<lparr>strm = \<lparr>data = bytes, pos = 0\<rparr>, written = [], printed = []\<rparr>
       = Some (h, s1)" and
    p2: "unpack_sig isalnum h s1 = Some (g, s2)" and
    p3: "unpack_cmdline s2 = Some s3" and
    p4: "unpack_info s3 = Some (kb, rb, s4)" and
    p5: "unpack_bootstub isalnum h g s4 = Some (bsz, s5)" and
    p6: "unpack_kernel_ramdisk kb rb s5 = Some r"
    using assms by (rule unpack_SomeE)
  note f1 = unpack_hdr_frame [OF p1]
  note f2 = unpack_sig_frame [OF p2]
  note f3 = unpack_cmdline_Some [OF p3]
  note f4 = unpack_info_Some(1-3) [OF p4]
  note f5 = unpack_bootstub_frame [OF p5]
  have d1: "data (strm s1) = bytes" using f1(1) by simp
  have d2: "data (strm s2) = bytes" using f2(1) d1 by simp
  have d3: "data (strm s3) = bytes" using f3(2) d2 by simp
  have d4: "data (strm s4) = bytes" using f4(1) d3 by simp
  have w1: "written s1 = [] \<or> (\<exists>c. written s1 = [(''hdr'', c)])" using f1(4) by simp
  obtain sp where w2: "written s2 = written s1 @ sp"
    and sp: "(g \<le> 0 \<and> sp = []) \<or> (0 < g \<and> (\<exists>c. sp = [(''sig'', c)]))"
    using f2(3) by auto
  obtain ct where w3: "written s3 = written s2 @ [(''cmdline.txt'', ct)]"
    using f3(2) by simp
  obtain pc where w4: "written s4 = written s3 @ [(''parameter'', pc)]"
    using f4(3) by auto
  obtain bc where w5: "written s5 = written s4 @ [(''bootstub'', bc)]"
    using f5(3) by auto
  have pr: "printed s5 = [(''header size'', h), (''sig size'', g), (''bootstub size'', bsz)]"
    using f1(3) f2(2) f3(2) f4(2) f5(2) by simp
  obtain kp ps where fr: "files r = written s5 @ kp" "stdout r = printed s5 @ ps"
    and kp: "kp = [] \<or> (\<exists>kc. kp = [(''kernel'', kc)])
       \<or> (\<exists>kc rc. kp = [(''kernel'', kc), (''ramdisk.cpio.gz'', rc)])"
  proof -
    obtain ksz where k: "uint32_le kb = Some ksz"
      and bad: "ksz < 500000 \<or> 15000000 < ksz \<Longrightarrow>
           r = \<lparr>ret = 1, files = written s5, stdout = printed s5, stderr = [Kernel_size_wrong]\<rparr>"
      and good: "500000 \<le> ksz \<Longrightarrow> ksz \<le> 15000000 \<Longrightarrow>
           \<exists>rsz kc f1. uint32_le rb = Some rsz
             \<and> write_buffer (strm s5) (int ksz) ''kernel'' (written s5)
                  = Some (f1, written s5 @ [(''kernel'', kc)])
             \<and> (rsz < 10000 \<or> 300000000 < rsz \<longrightarrow>
                  r = \<lparr>ret = 1, files = written s5 @ [(''kernel'', kc)],
                       stdout = printed s5 @ [(''kernel size'', int ksz)],
                       stderr = [Ramdisk_size_wrong]\<rparr>)
             \<and> (10000 \<le> rsz \<and> rsz \<le> 300000000 \<longrightarrow>
                  (\<exists>rc f2. write_buffer f1 (int rsz) ''ramdisk.cpio.gz'' (written s5 @ [(''kernel'', kc)])
                             = Some (f2, written s5 @ [(''kernel'', kc), (''ramdisk.cpio.gz'', rc)])
                    \<and> r = \<lparr>ret = 0, files = written s5 @ [(''kernel'', kc), (''ramdisk.cpio.gz'', rc)],
                            stdout = printed s5 @ [(''kernel size'', int ksz), (''ramdisk size'', int rsz)],
                            stderr = []\<rparr>))"
      by (rule unpack_kernel_ramdisk_Some [OF p6]) (rule that, assumption+)
    show ?thesis
    proof (cases "ksz < 500000 \<or> 15000000 < ksz")
      case True
      from bad [OF True] show ?thesis
        by (intro that [of "[]" "[]"]) simp_all
    next
      case False
      then have "500000 \<le> ksz" "ksz \<le> 15000000" by simp_all
      from good [OF this] obtain rsz kc where
        a: "rsz < 10000 \<or> 300000000 < rsz \<longrightarrow>
                  r = \<lparr>ret = 1, files = written s5 @ [(''kernel'', kc)],
                       stdout = printed s5 @ [(''kernel size'', int ksz)],
                       stderr = [Ramdisk_size_wrong]\<rparr>" and
        b: "10000 \<le> rsz \<and> rsz \<le> 300000000 \<longrightarrow>
                  (\<exists>rc. r = \<lparr>ret = 0, files = written s5 @ [(''kernel'', kc), (''ramdisk.cpio.gz'', rc)],
                            stdout = printed s5 @ [(''kernel size'', int ksz), (''ramdisk size'', int rsz)],
                            stderr = []\<rparr>)"
        by blast
      show ?thesis
      proof (cases "rsz < 10000 \<or> 300000000 < rsz")
        case True
        with a show ?thesis
          by (intro that [of "[(''kernel'', kc)]" "[(''kernel size'', int ksz)]"]) simp_all
      next
        case False
        with b obtain rc where
          "r = \<lparr>ret = 0, files = written s5 @ [(''kernel'', kc), (''ramdisk.cpio.gz'', rc)],
                            stdout = printed s5 @ [(''kernel size'', int ksz), (''ramdisk size'', int rsz)],
                            stderr = []\<rparr>"
          by auto
        then show ?thesis
          by (intro that [of "[(''kernel'', kc), (''ramdisk.cpio.gz'', rc)]"
                "[(''kernel size'', int ksz), (''ramdisk size'', int rsz)]"]) simp_all
      qed
    qed
  qed
  show ?thesis
  proof (rule that [OF p1 p2 p3 p4 p5 p6 d1 d2 d3 d4 f1(2) refl])
    show "written s2 = written s1 @ sp" by (rule w2)
    show "written s3 = written s1 @ sp @ [(''cmdline.txt'', ct)]" using w3 w2 by simp
    show "written s4 = written s1 @ sp @ [(''cmdline.txt'', ct), (''parameter'', pc)]"
      using w4 w3 w2 by simp
    show "written s5 = written s1 @ sp @ [(''cmdline.txt'', ct), (''parameter'', pc), (''bootstub'', bc)]"
      using w5 w4 w3 w2 by simp
    show "written s1 = [] \<or> (\<exists>c. written s1 = [(''hdr'', c)])" by (rule w1)
    show "(g \<le> 0 \<and> sp = []) \<or> (0 < g \<and> (\<exists>c. sp = [(''sig'', c)]))" by (rule sp)
    show "files r = written s1 @ sp @ [(''cmdline.txt'', ct), (''parameter'', pc), (''bootstub'', bc)] @ kp"
      using fr(1) w5 w4 w3 w2 by simp
    show "kp = [] \<or> (\<exists>kc. kp = [(''kernel'', kc)])
       \<or> (\<exists>kc rc. kp = [(''kernel'', kc), (''ramdisk.cpio.gz'', rc)])" by (rule kp)
    show "stdout r = [(''header size'', h), (''sig size'', g), (''bootstub size'', bsz)] @ ps"
      using fr(2) pr by simp
  qed
qed

text \<open>
  C3, with the polarity of line 108 (\<^verbatim>\<open>if (!check_byte(f, 4, 1)) write_buffer(f, 512, "hdr")\<close>).
  For every stream of at least 512 bytes on which the run is defined, the 4-byte probe at
  offset 0 with min 1 returns 1 or 0.  When it returns 1 (positive), the header is absent:
  the header size printed, which is the offset of the stream after this step, is 0 and no
  \<^verbatim>\<open>hdr\<close> file is written.  When it returns 0 (negative), the header size printed is 512 and
  the \<^verbatim>\<open>hdr\<close> file holds the first 512 bytes of the stream.
\<close>

theorem unpack_header_presence:
  assumes "unpack isalnum filename (Some bytes) = Some r" and "512 \<le> length bytes"
  shows "(probe isalnum bytes 0 4 1 = Some 1 \<or> probe isalnum bytes 0 4 1 = Some 0)
       \<and> (probe isalnum bytes 0 4 1 = Some 1 \<longrightarrow>
            reported r ''header size'' = Some 0 \<and> emitted r ''hdr'' = None)
       \<and> (probe isalnum bytes 0 4 1 = Some 0 \<longrightarrow>
            reported r ''header size'' = Some 512
            \<and> emitted r ''hdr'' = Some (map Some (take 512 bytes)))"
proof -
  obtain h s1 g bsz hp sp ct pc bc kp ps where
    p1: "unpack_hdr isalnum \<lparr>strm = \<lparr>data = bytes, pos = 0\<rparr>, written = [], printed = []\<rparr>
       = Some (h, s1)" and
    w1: "written s1 = hp" and
    sp: "(g \<le> 0 \<and> sp = []) \<or> (0 < g \<and> (\<exists>c. sp = [(''sig'', c)]))" and
    fr: "files r = hp @ sp @ [(''cmdline.txt'', ct), (''parameter'', pc), (''bootstub'', bc)] @ kp" and
    kp: "kp = [] \<or> (\<exists>kc. kp = [(''kernel'', kc)])
       \<or> (\<exists>kc rc. kp = [(''kernel'', kc), (''ramdisk.cpio.gz'', rc)])" and
    so: "stdout r = [(''header size'', h), (''sig size'', g), (''bootstub size'', bsz)] @ ps"
    using assms(1) by (rule unpack_run)
  note st = unpack_hdr_start [OF p1 assms(2)]
  have rep: "reported r ''header size'' = Some h"
    by (simp add: reported_def so)
  have e0: "emitted r ''hdr'' = None" if "hp = []"
    using that sp kp by (auto simp: emitted_def fr)
  have e1: "emitted r ''hdr'' = Some c" if "hp = [(''hdr'', c)]" for c
    using that by (simp add: emitted_def fr)
  show ?thesis
    using st rep e0 e1 w1 by auto
qed

text \<open>
  C4, with the lengths that the loop of lines 115--122 reaches.  Each \<^verbatim>\<open>fseek\<close> of the
  loop is relative to the current offset, so the deltas 0, 480, 248 and 296 add up: for
  every stream of at least 1540 bytes on which the run is defined, the signature size
  printed is 0, 480, 728 or 1024, and when it is 0 no \<^verbatim>\<open>sig\<close> file is written.
\<close>

theorem unpack_signature_size:
  assumes "unpack isalnum filename (Some bytes) = Some r" and "1540 \<le> length bytes"
  shows "\<exists>g. reported r ''sig size'' = Some g \<and> g \<in> {0, 480, 728, 1024}
           \<and> (g = 0 \<longrightarrow> emitted r ''sig'' = None)"
proof -
  obtain h s1 g s2 bsz hp sp ct pc bc kp ps where
    p1: "unpack_hdr isalnum \<lparr>strm = \<lparr>data = bytes, pos = 0\<rparr>, written = [], printed = []\<rparr>
       = Some (h, s1)" and
    p2: "unpack_sig isalnum h s1 = Some (g, s2)" and
    d1: "data (strm s1) = bytes" and
    h: "h = int (pos (strm s1))" and
    hp: "hp = [] \<or> (\<exists>c. hp = [(''hdr'', c)])" and
    sp: "(g \<le> 0 \<and> sp = []) \<or> (0 < g \<and> (\<exists>c. sp = [(''sig'', c)]))" and
    fr: "files r = hp @ sp @ [(''cmdline.txt'', ct), (''parameter'', pc), (''bootstub'', bc)] @ kp" and
    kp: "kp = [] \<or> (\<exists>kc. kp = [(''kernel'', kc)])
       \<or> (\<exists>kc rc. kp = [(''kernel'', kc), (''ramdisk.cpio.gz'', rc)])" and
    so: "stdout r = [(''header size'', h), (''sig size'', g), (''bootstub size'', bsz)] @ ps"
    using assms(1) by (rule unpack_run)
  have "512 \<le> length bytes" using assms(2) by simp
  note st = unpack_hdr_start [OF p1 this]
  have "h = 0 \<or> h = 512" using st by auto
  then have "pos (strm s1) + 1028 \<le> length (data (strm s1))"
    using h d1 assms(2) by auto
  from unpack_sig_value [OF p2 h this]
  have g: "g \<in> {0, 480, 728, 1024}" by auto
  have rep: "reported r ''sig size'' = Some g"
    by (simp add: reported_def so)
  have "emitted r ''sig'' = None" if "g = 0"
    using that sp hp kp by (auto simp: emitted_def fr)
  with g rep show ?thesis by blast
qed

text \<open>Where the stream stands when the command line is read.\<close>

lemma unpack_cmdline_offset:
  assumes p1: "unpack_hdr isalnum \<lparr>strm = \<lparr>data = bytes, pos = 0\<rparr>, written = [], printed = []\<rparr>
       = Some (h, s1)"
    and p2: "unpack_sig isalnum h s1 = Some (g, s2)"
    and long: "nat (h + g) \<le> length bytes"
  shows "pos (strm s2) = nat (h + g)" and "0 \<le> h + g"
proof -
  have h: "h = int (pos (strm s1))" and d1: "data (strm s1) = bytes"
    using unpack_hdr_frame(1,2) [OF p1] by simp_all
  have "int (pos (strm s2)) = h + g"
    using unpack_sig_pos(1) [OF p2 h] long d1 by simp
  then show "pos (strm s2) = nat (h + g)" and "0 \<le> h + g" by linarith+
qed

text \<open>
  C2, with what \<^verbatim>\<open>write_string\<close> writes (line 95: \<^verbatim>\<open>strlen(string)\<close> bytes).  For every
  stream on which the run is defined, with \<open>h\<close> the header size and \<open>g\<close> the signature size
  that the run prints: the \<^verbatim>\<open>cmdline.txt\<close> file holds the bytes of the 1024-byte region at
  offset \<open>h + g\<close> that come before its first NUL, and the region has a NUL.
\<close>

theorem unpack_cmdline_text:
  assumes "unpack isalnum filename (Some bytes) = Some r"
      and "reported r ''header size'' = Some h" and "reported r ''sig size'' = Some g"
      and "nat (h + g) \<le> length bytes"
  shows "emitted r ''cmdline.txt'' =
           Some (map Some (takeWhile (\<lambda>b. b \<noteq> 0) (take 1024 (drop (nat (h + g)) bytes))))
       \<and> 0 \<in> set (take 1024 (drop (nat (h + g)) bytes))"
proof -
  obtain h' s1 g' s2 s3 bsz hp sp ct pc bc kp ps where
    p1: "unpack_hdr isalnum \<lparr>strm = \<lparr>data = bytes, pos = 0\<rparr>, written = [], printed = []\<rparr>
       = Some (h', s1)" and
    p2: "unpack_sig isalnum h' s1 = Some (g', s2)" and
    p3: "unpack_cmdline s2 = Some s3" and
    d2: "data (strm s2) = bytes" and
    w2: "written s2 = hp @ sp" and
    w3: "written s3 = hp @ sp @ [(''cmdline.txt'', ct)]" and
    hp: "hp = [] \<or> (\<exists>c. hp = [(''hdr'', c)])" and
    sp: "(g' \<le> 0 \<and> sp = []) \<or> (0 < g' \<and> (\<exists>c. sp = [(''sig'', c)]))" and
    fr: "files r = hp @ sp @ [(''cmdline.txt'', ct), (''parameter'', pc), (''bootstub'', bc)] @ kp" and
    so: "stdout r = [(''header size'', h'), (''sig size'', g'), (''bootstub size'', bsz)] @ ps"
    using assms(1) by (rule unpack_run)
  have hg: "h' = h" "g' = g"
    using assms(2,3) by (simp_all add: reported_def so)
  note p1 = p1 [unfolded hg] and p2 = p2 [unfolded hg]
  have q: "pos (strm s2) = nat (h + g)"
    by (rule unpack_cmdline_offset(1) [OF p1 p2 assms(4)])
  note c = unpack_cmdline_Some [OF p3, unfolded q d2]
  have "ct = map Some (takeWhile (\<lambda>b. b \<noteq> 0) (take 1024 (drop (nat (h + g)) bytes)))"
    using c(2) w3 w2 by simp
  moreover have "emitted r ''cmdline.txt'' = Some ct"
    using hp sp by (auto simp: emitted_def fr)
  ultimately show ?thesis using c(1) by simp
qed


text \<open>
  C6.  For every stream on which the run is defined, with \<open>h\<close> the header size and \<open>g\<close>
  the signature size that the run prints, and the two 4-byte little-endian fields at
  offsets \<open>h + g + 1024\<close> and \<open>h + g + 1028\<close> decoded as the kernel size and the ramdisk
  size.  When the kernel size is below 500000 or above 15000000, the run returns 1, its
  only diagnostic is the one about the kernel size, and it writes neither a
  \<^verbatim>\<open>kernel\<close> nor a \<^verbatim>\<open>ramdisk.cpio.gz\<close> file.  When the ramdisk size is below 10000 or above
  300000000, the run returns 1 and writes no \<^verbatim>\<open>ramdisk.cpio.gz\<close> file, and its only
  diagnostic is the one about the ramdisk size if the kernel size was in range.  (The
  run is defined on every stream of at least 13824 bytes that has a NUL in its
  command-line region, see \<open>unpack_defined\<close> below.)
\<close>

theorem unpack_size_range_errors:
  assumes "unpack isalnum filename (Some bytes) = Some r"
      and "reported r ''header size'' = Some h" and "reported r ''sig size'' = Some g"
      and "field = nat (h + g) + 1024" and "field + 8 \<le> length bytes"
      and "uint32_le (map Some (take 4 (drop field bytes))) = Some kernel_size"
      and "uint32_le (map Some (take 4 (drop (field + 4) bytes))) = Some ramdisk_size"
  shows "(kernel_size < 500000 \<or> 15000000 < kernel_size \<longrightarrow>
            ret r = 1 \<and> stderr r = [Kernel_size_wrong]
            \<and> emitted r ''kernel'' = None \<and> emitted r ''ramdisk.cpio.gz'' = None)
       \<and> (ramdisk_size < 10000 \<or> 300000000 < ramdisk_size \<longrightarrow>
            ret r = 1 \<and> emitted r ''ramdisk.cpio.gz'' = None
            \<and> (500000 \<le> kernel_size \<and> kernel_size \<le> 15000000 \<longrightarrow>
                 stderr r = [Ramdisk_size_wrong]))"
proof -
  obtain h' s1 g' s2 s3 kb rb s4 bsz s5 hp sp ct pc bc kp ps where
    p1: "unpack_hdr isalnum \<lparr>strm = \<lparr>data = bytes, pos = 0\<rparr>, written = [], printed = []\<rparr>
       = Some (h', s1)" and
    p2: "unpack_sig isalnum h' s1 = Some (g', s2)" and
    p3: "unpack_cmdline s2 = Some s3" and
    p4: "unpack_info s3 = Some (kb, rb, s4)" and
    p6: "unpack_kernel_ramdisk kb rb s5 = Some r" and
    d: "data (strm s2) = bytes" "data (strm s3) = bytes" and
    w5: "written s5 = hp @ sp @ [(''cmdline.txt'', ct), (''parameter'', pc), (''bootstub'', bc)]" and
    hp: "hp = [] \<or> (\<exists>c. hp = [(''hdr'', c)])" and
    sp: "(g' \<le> 0 \<and> sp = []) \<or> (0 < g' \<and> (\<exists>c. sp = [(''sig'', c)]))" and
    so: "stdout r = [(''header size'', h'), (''sig size'', g'), (''bootstub size'', bsz)] @ ps"
    using assms(1) by (rule unpack_run)
  have hg: "h' = h" "g' = g"
    using assms(2,3) by (simp_all add: reported_def so)
  have long: "nat (h + g) + 1032 \<le> length bytes" using assms(4,5) by simp
  then have short: "nat (h + g) \<le> length bytes" by simp
  note p1 = p1 [unfolded hg] and p2 = p2 [unfolded hg]
  note q2 = unpack_cmdline_offset [OF p1 p2 short]
  have q3: "pos (strm s3) = field"
    using unpack_cmdline_Some(2) [OF p3] q2(1) d(1) long assms(4) by (simp add: min_absorb2)
  have "pos (strm s3) + 4 \<le> length (data (strm s3))" "pos (strm s3) + 8 \<le> length (data (strm s3))"
    using q3 d(2) assms(5) by simp_all
  note kr = unpack_info_Some(4,5) [OF p4, unfolded q3 d(2)]
  have kb: "uint32_le kb = Some kernel_size" and rb: "uint32_le rb = Some ramdisk_size"
    using kr assms(5,6,7) by simp_all
  have names: "map_of (written s5) ''kernel'' = None" "map_of (written s5) ''ramdisk.cpio.gz'' = None"
    using hp sp by (auto simp: w5)
  obtain ksz where k: "uint32_le kb = Some ksz"
    and bad: "ksz < 500000 \<or> 15000000 < ksz \<Longrightarrow>
         r = \<lparr>ret = 1, files = written s5, stdout = printed s5, stderr = [Kernel_size_wrong]\<rparr>"
    and good: "500000 \<le> ksz \<Longrightarrow> ksz \<le> 15000000 \<Longrightarrow>
         \<exists>rsz kc f1. uint32_le rb = Some rsz
           \<and> write_buffer (strm s5) (int ksz) ''kernel'' (written s5)
                = Some (f1, written s5 @ [(''kernel'', kc)])
           \<and> (rsz < 10000 \<or> 300000000 < rsz \<longrightarrow>
                r = \<lparr>ret = 1, files = written s5 @ [(''kernel'', kc)],
                     stdout = printed s5 @ [(''kernel size'', int ksz)],
                     stderr = [Ramdisk_size_wrong]\<rparr>)
           \<and> (10000 \<le> rsz \<and> rsz \<le> 300000000 \<longrightarrow>
                (\<exists>rc f2. write_buffer f1 (int rsz) ''ramdisk.cpio.gz'' (written s5 @ [(''kernel'', kc)])
                           = Some (f2, written s5 @ [(''kernel'', kc), (''ramdisk.cpio.gz'', rc)])
                  \<and> r = \<lparr>ret = 0, files = written s5 @ [(''kernel'', kc), (''ramdisk.cpio.gz'', rc)],
                          stdout = printed s5 @ [(''kernel size'', int ksz), (''ramdisk size'', int rsz)],
                          stderr = []\<rparr>))"
    by (rule unpack_kernel_ramdisk_Some [OF p6]) (rule that, assumption+)
  have ksz: "ksz = kernel_size" using k kb by simp
  have c1: "ret r = 1 \<and> stderr r = [Kernel_size_wrong]
            \<and> emitted r ''kernel'' = None \<and> emitted r ''ramdisk.cpio.gz'' = None"
    if "kernel_size < 500000 \<or> 15000000 < kernel_size"
    using bad that names by (simp add: ksz emitted_def)
  have c2: "ret r = 1 \<and> emitted r ''ramdisk.cpio.gz'' = None \<and> stderr r = [Ramdisk_size_wrong]"
    if out: "ramdisk_size < 10000 \<or> 300000000 < ramdisk_size"
      and inr: "500000 \<le> kernel_size" "kernel_size \<le> 15000000"
  proof -
    from good inr obtain rsz kc where "uint32_le rb = Some rsz"
      and "rsz < 10000 \<or> 300000000 < rsz \<longrightarrow>
                r = \<lparr>ret = 1, files = written s5 @ [(''kernel'', kc)],
                     stdout = printed s5 @ [(''kernel size'', int ksz)],
                     stderr = [Ramdisk_size_wrong]\<rparr>"
      unfolding ksz by blast
    then have "r = \<lparr>ret = 1, files = written s5 @ [(''kernel'', kc)],
                     stdout = printed s5 @ [(''kernel size'', int ksz)],
                     stderr = [Ramdisk_size_wrong]\<rparr>"
      using rb out by auto
    then show ?thesis
      using names by (simp add: emitted_def)
  qed
  show ?thesis
    using c1 c2 by (cases "kernel_size < 500000 \<or> 15000000 < kernel_size") auto
qed

text \<open>The blocks of \<open>unpack\<close> evaluated on a stream that is long enough.\<close>

lemma probe_check_byte:
  assumes "probe isalnum bytes off (int n) mn = Some v" and "off + n \<le> length bytes" and "1 \<le> n"
  shows "check_byte isalnum \<lparr>data = bytes, pos = off\<rparr> (int n) mn
           = Some (v, \<lparr>data = bytes, pos = off\<rparr>)"
  using check_byte_restores [of "\<lparr>data = bytes, pos = off\<rparr>" n isalnum mn] assms
  by (auto simp: probe_def)

lemma write_buffer_full:
  assumes "p + n \<le> length bytes"
  shows "write_buffer \<lparr>data = bytes, pos = p\<rparr> (int n) name out =
           Some (\<lparr>data = bytes, pos = p + n\<rparr>, out @ [(name, map Some (take n (drop p bytes)))])"
  using assms by (simp add: write_buffer_def fread_def Let_def filled_full min_absorb2)

lemma unpack_hdr_eval:
  assumes "512 \<le> length bytes" and "probe isalnum bytes 0 4 1 = Some v"
  shows "unpack_hdr isalnum \<lparr>strm = \<lparr>data = bytes, pos = 0\<rparr>, written = [], printed = []\<rparr> =
           (if v = 0
            then Some (512, \<lparr>strm = \<lparr>data = bytes, pos = 512\<rparr>,
                             written = [(''hdr'', map Some (take 512 bytes))],
                             printed = [(''header size'', 512)]\<rparr>)
            else Some (0, \<lparr>strm = \<lparr>data = bytes, pos = 0\<rparr>, written = [],
                           printed = [(''header size'', 0)]\<rparr>))"
proof -
  have c: "check_byte isalnum \<lparr>data = bytes, pos = 0\<rparr> 4 1 = Some (v, \<lparr>data = bytes, pos = 0\<rparr>)"
    using probe_check_byte [of isalnum bytes 0 4 1 v] assms by simp
  have w: "write_buffer \<lparr>data = bytes, pos = 0\<rparr> 512 ''hdr'' [] =
             Some (\<lparr>data = bytes, pos = 512\<rparr>, [(''hdr'', map Some (take 512 bytes))])"
    using write_buffer_full [of 0 512 bytes "''hdr''" "[]"] assms(1) by simp
  show ?thesis
    by (simp add: unpack_hdr_def c w Let_def ftell_def)
qed

lemma unpack_sig_eval:
  fixes isalnum :: "u8 \<Rightarrow> int" and bytes :: "u8 list" and p :: nat
  assumes "p + 1028 \<le> length bytes"
  defines "d \<equiv> (if probe isalnum bytes p 4 1 = Some 1 then 0
              else if probe isalnum bytes (p + 480) 4 1 = Some 1 then 480
              else if probe isalnum bytes (p + 728) 4 1 = Some 1 then 728
              else 1024 :: nat)"
  shows "unpack_sig isalnum (int p) \<lparr>strm = \<lparr>data = bytes, pos = p\<rparr>, written = w, printed = pr\<rparr> =
           Some (int d, \<lparr>strm = \<lparr>data = bytes, pos = p + d\<rparr>,
                          written = w @ (if d = 0 then [] else [(''sig'', map Some (take d (drop p bytes)))]),
                          printed = pr @ [(''sig size'', int d)]\<rparr>)"
proof -
  have l: "sig_loop isalnum sig_deltas \<lparr>data = bytes, pos = p\<rparr> = Some \<lparr>data = bytes, pos = p + d\<rparr>"
    using sig_loop_eval [of "\<lparr>data = bytes, pos = p\<rparr>" isalnum] assms(1)
    by (simp add: d_def)
  have d: "d \<le> 1024" by (simp add: d_def)
  show ?thesis
  proof (cases "d = 0")
    case True
    then show ?thesis
      by (simp add: unpack_sig_def l Let_def ftell_def)
  next
    case False
    have b: "fseek_cur (- int d) \<lparr>data = bytes, pos = p + d\<rparr> = \<lparr>data = bytes, pos = p\<rparr>"
      using fseek_cur_back [of d "\<lparr>data = bytes, pos = p + d\<rparr>"] by simp
    have w: "write_buffer \<lparr>data = bytes, pos = p\<rparr> (int d) ''sig'' w =
               Some (\<lparr>data = bytes, pos = p + d\<rparr>, w @ [(''sig'', map Some (take d (drop p bytes)))])"
      using write_buffer_full [of p d bytes] assms(1) d by simp
    show ?thesis
      using False by (simp add: unpack_sig_def l Let_def ftell_def b w)
  qed
qed

lemma unpack_cmdline_eval:
  assumes "p + 1024 \<le> length bytes" and "0 \<in> set (take 1024 (drop p bytes))"
  shows "unpack_cmdline \<lparr>strm = \<lparr>data = bytes, pos = p\<rparr>, written = w, printed = pr\<rparr> =
           Some \<lparr>strm = \<lparr>data = bytes, pos = p + 1024\<rparr>,
                 written = w @ [(''cmdline.txt'',
                                 map Some (takeWhile (\<lambda>b. b \<noteq> 0) (take 1024 (drop p bytes))))],
                 printed = pr\<rparr>"
  using assms
  by (simp add: unpack_cmdline_def fread_full write_string_filled)

lemma unpack_info_eval:
  assumes "p + 16 \<le> length bytes"
  shows "unpack_info \<lparr>strm = \<lparr>data = bytes, pos = p\<rparr>, written = w, printed = pr\<rparr> =
           Some (map Some (take 4 (drop p bytes)), map Some (take 4 (drop (p + 4) bytes)),
                 \<lparr>strm = \<lparr>data = bytes, pos = p + 3072\<rparr>,
                  written = w @ [(''parameter'', map Some (take 8 (drop (p + 8) bytes)))],
                  printed = pr\<rparr>)"
proof -
  have w8: "write_buffer \<lparr>data = bytes, pos = p + 8\<rparr> 8 ''parameter'' w =
              Some (\<lparr>data = bytes, pos = p + 16\<rparr>,
                    w @ [(''parameter'', map Some (take 8 (drop (p + 8) bytes)))])"
    using write_buffer_full [of "p + 8" 8 bytes "''parameter''" w] assms by simp
  have s: "fseek_cur 3056 \<lparr>data = bytes, pos = p + 16\<rparr> = \<lparr>data = bytes, pos = p + 3072\<rparr>"
    using fseek_cur_fwd [of 3056 "\<lparr>data = bytes, pos = p + 16\<rparr>"] by simp
  have r1: "fread 4 \<lparr>data = bytes, pos = p\<rparr> = (take 4 (drop p bytes), \<lparr>data = bytes, pos = p + 4\<rparr>)"
    using fread_full [of "\<lparr>data = bytes, pos = p\<rparr>" 4] assms by simp
  have r2: "fread 4 \<lparr>data = bytes, pos = p + 4\<rparr>
              = (take 4 (drop (p + 4) bytes), \<lparr>data = bytes, pos = p + 8\<rparr>)"
    using fread_full [of "\<lparr>data = bytes, pos = p + 4\<rparr>" 4] assms by simp
  have l: "length (take 4 (drop p bytes)) = 4" "length (take 4 (drop (p + 4) bytes)) = 4"
    using assms by simp_all
  note fl = filled_full [OF l(1)] filled_full [OF l(2)]
  show ?thesis
    by (simp add: unpack_info_def r1 r2 w8 s fl)
qed

lemma unpack_bootstub_eval:
  fixes isalnum :: "u8 \<Rightarrow> int" and bytes :: "u8 list" and p :: nat
  assumes "int p = h + g + 4096" and "p + 4098 \<le> length bytes"
  defines "b \<equiv> (if probe isalnum bytes (p + 4096) 2 0 = Some 1 then 8192 else 4096 :: nat)"
  assumes "p + b \<le> length bytes"
  shows "unpack_bootstub isalnum h g \<lparr>strm = \<lparr>data = bytes, pos = p\<rparr>, written = w, printed = pr\<rparr> =
           Some (int b, \<lparr>strm = \<lparr>data = bytes, pos = p + b\<rparr>,
                          written = w @ [(''bootstub'', map Some (take b (drop p bytes)))],
                          printed = pr @ [(''bootstub size'', int b)]\<rparr>)"
proof -
  obtain v where v: "probe isalnum bytes (p + 4096) 2 0 = Some v" "v = 0 \<or> v = 1"
    and c: "check_byte isalnum \<lparr>data = bytes, pos = p + 4096\<rparr> 2 0
               = Some (v, \<lparr>data = bytes, pos = p + 4096\<rparr>)"
    using probe_restores [of "p + 4096" 2 bytes isalnum 0] assms(2) by auto
  have e: "fseek_cur 4096 \<lparr>data = bytes, pos = p\<rparr> = \<lparr>data = bytes, pos = p + 4096\<rparr>"
    using fseek_cur_fwd [of 4096 "\<lparr>data = bytes, pos = p\<rparr>"] by simp
  have e2: "fseek_cur 4096 \<lparr>data = bytes, pos = p + 4096\<rparr> = \<lparr>data = bytes, pos = p + 8192\<rparr>"
    using fseek_cur_fwd [of 4096 "\<lparr>data = bytes, pos = p + 4096\<rparr>"] by simp
  have bb: "b = (if v = 1 then 8192 else 4096)" using v by (auto simp: b_def)
  have r: "fseek_cur (- int b) \<lparr>data = bytes, pos = p + b\<rparr> = \<lparr>data = bytes, pos = p\<rparr>"
    using fseek_cur_back [of b "\<lparr>data = bytes, pos = p + b\<rparr>"] by simp
  have w: "write_buffer \<lparr>data = bytes, pos = p\<rparr> (int b) ''bootstub'' w =
             Some (\<lparr>data = bytes, pos = p + b\<rparr>, w @ [(''bootstub'', map Some (take b (drop p bytes)))])"
    by (rule write_buffer_full [OF assms(4)])
  show ?thesis
  proof (cases "v = 1")
    case True
    then have b8: "b = 8192" using bb by simp
    have z: "int (p + 8192) - h - g - 4096 = 8192" using assms(1) by simp
    show ?thesis
      using True r w assms(1) unfolding b8
      by (simp add: unpack_bootstub_def e c e2 Let_def ftell_def z)
  next
    case False
    then have v0: "v = 0" using v(2) by simp
    have b4: "b = 4096" using bb False by simp
    have z: "int (p + 4096) - h - g - 4096 = 4096" using assms(1) by simp
    show ?thesis
      using v0 r w assms(1) unfolding b4
      by (simp add: unpack_bootstub_def e c Let_def ftell_def z)
  qed
qed

lemma unpack_kernel_ramdisk_eval:
  assumes "uint32_le kb = Some K" and "uint32_le rb = Some R"
      and "500000 \<le> K" "K \<le> 15000000" "10000 \<le> R" "R \<le> 300000000"
      and "p + K + R \<le> length bytes"
  shows "unpack_kernel_ramdisk kb rb \<lparr>strm = \<lparr>data = bytes, pos = p\<rparr>, written = w, printed = pr\<rparr> =
           Some \<lparr>ret = 0,
                 files = w @ [(''kernel'', map Some (take K (drop p bytes))),
                              (''ramdisk.cpio.gz'', map Some (take R (drop (p + K) bytes)))],
                 stdout = pr @ [(''kernel size'', int K), (''ramdisk size'', int R)],
                 stderr = []\<rparr>"
proof -
  have w1: "write_buffer \<lparr>data = bytes, pos = p\<rparr> (int K) ''kernel'' w =
              Some (\<lparr>data = bytes, pos = p + K\<rparr>, w @ [(''kernel'', map Some (take K (drop p bytes)))])"
    using write_buffer_full [of p K bytes] assms(7) by simp
  have w2: "write_buffer \<lparr>data = bytes, pos = p + K\<rparr> (int R) ''ramdisk.cpio.gz''
                (w @ [(''kernel'', map Some (take K (drop p bytes)))]) =
              Some (\<lparr>data = bytes, pos = p + K + R\<rparr>,
                    (w @ [(''kernel'', map Some (take K (drop p bytes)))]) @
                      [(''ramdisk.cpio.gz'', map Some (take R (drop (p + K) bytes)))])"
    using write_buffer_full [of "p + K" R bytes] assms(7) by simp
  show ?thesis
    using assms(3-6)
    by (simp add: unpack_kernel_ramdisk_def assms(1,2) w1 w2 Let_def)
qed

lemma probe_window:
  assumes "off + n \<le> length bytes" and "1 \<le> n"
  shows "probe isalnum bytes off (int n) mn =
           Some (let t = (if 1 < n \<and> bytes ! off = 0 then bytes ! Suc off else bytes ! off);
                     v = isalnum t
                 in if v > mn \<and> v < int n then 1 else 0)"
  using check_byte_window [of "\<lparr>data = bytes, pos = off\<rparr>" n isalnum mn] assms
  by (simp add: probe_def)

text \<open>
  \<open>unpack\<close> up to the bootstub, on a stream that starts with a 512-byte header, a
  signature, the 1024-byte command line, the two size fields, the 8 parameter bytes and
  3056 bytes of filler, when the probes answer as that layout needs: 0 at the header, 0
  at each candidate offset inside the signature, and 1 at the command line (unless the
  signature has the full 1024 bytes, after which the loop stops by itself).
\<close>

lemma unpack_layout:
  fixes isalnum :: "u8 \<Rightarrow> int"
  assumes len: "length hdr = 512" "length sg = S" "length cmdline = 1024" "length kf = 4"
      "length rf = 4" "length param = 8" "length filler = 3056"
    and S: "S = 480 \<or> S = 728 \<or> S = 1024"
    and nul: "0 \<in> set cmdline"
    and img: "img = hdr @ sg @ cmdline @ kf @ rf @ param @ filler @ rest"
    and p0: "probe isalnum img 0 4 1 = Some 0"
    and p1: "probe isalnum img 512 4 1 = Some 0"
    and p2: "480 < S \<Longrightarrow> probe isalnum img 992 4 1 = Some 0"
    and p3: "728 < S \<Longrightarrow> probe isalnum img 1240 4 1 = Some 0"
    and p4: "S < 1024 \<Longrightarrow> probe isalnum img (512 + S) 4 1 = Some 1"
    and B: "B = (if probe isalnum img (512 + S + 8192) 2 0 = Some 1 then 8192 else 4096)"
    and rest: "4098 \<le> length rest" "B \<le> length rest"
  shows "unpack isalnum filename (Some img) =
           unpack_kernel_ramdisk (map Some kf) (map Some rf)
             \<lparr>strm = \<lparr>data = img, pos = 512 + S + 1024 + 3072 + B\<rparr>,
              written = [(''hdr'', map Some hdr), (''sig'', map Some sg),
                         (''cmdline.txt'', map Some (takeWhile (\<lambda>b. b \<noteq> 0) cmdline)),
                         (''parameter'', map Some param),
                         (''bootstub'', map Some (take B rest))],
              printed = [(''header size'', 512), (''sig size'', int S),
                         (''bootstub size'', int B)]\<rparr>"
proof -
  have li: "length img = 512 + S + 4096 + length rest"
    by (simp add: img len)
  have big: "512 + S + 4096 + 4098 \<le> length img" "512 + S + 4096 + B \<le> length img"
    using li rest by simp_all
  have sl: "take 512 img = hdr" "take S (drop 512 img) = sg"
    "take 1024 (drop (512 + S) img) = cmdline"
    "take 4 (drop (512 + S + 1024) img) = kf"
    "take 4 (drop (512 + S + 1024 + 4) img) = rf"
    "take 8 (drop (512 + S + 1024 + 8) img) = param"
    "take B (drop (512 + S + 1024 + 3072) img) = take B rest"
    by (simp_all add: img len)
  have f0: "512 \<le> length img" using big by simp
  have e1: "unpack_hdr isalnum \<lparr>strm = \<lparr>data = img, pos = 0\<rparr>, written = [], printed = []\<rparr> =
              Some (512, \<lparr>strm = \<lparr>data = img, pos = 512\<rparr>,
                             written = [(''hdr'', map Some hdr)],
                             printed = [(''header size'', 512)]\<rparr>)"
    using unpack_hdr_eval [OF f0 p0] by (simp add: sl)
  have d: "(if probe isalnum img 512 4 1 = Some 1 then 0
              else if probe isalnum img (512 + 480) 4 1 = Some 1 then 480
              else if probe isalnum img (512 + 728) 4 1 = Some 1 then 728
              else 1024 :: nat) = S"
    using S p1 p2 p3 p4 by auto
  have f2: "512 + 1028 \<le> length img" using big by simp
  have S0: "(S = 0) = False" using S by auto
  note e2 = unpack_sig_eval [OF f2, of isalnum, unfolded d sl S0 if_False of_nat_numeral]
  have f3: "512 + S + 1024 \<le> length img" using big by simp
  have n3: "0 \<in> set (take 1024 (drop (512 + S) img))" using nul by (simp add: sl)
  note e3 = unpack_cmdline_eval [OF f3 n3, unfolded sl]
  have f4: "512 + S + 1024 + 16 \<le> length img" using big by simp
  note e4 = unpack_info_eval [OF f4, unfolded sl]
  have o5: "512 + S + 1024 + 3072 + 4096 = 512 + S + 8192" by simp
  have b: "(if probe isalnum img (512 + S + 1024 + 3072 + 4096) 2 0 = Some 1 then 8192 else 4096 :: nat) = B"
    unfolding o5 B by simp
  have f5: "int (512 + S + 1024 + 3072) = 512 + int S + 4096"
    "512 + S + 1024 + 3072 + 4098 \<le> length img"
    using big by simp_all
  have f5': "512 + S + 1024 + 3072 +
      (if probe isalnum img (512 + S + 1024 + 3072 + 4096) 2 0 = Some 1 then 8192 else 4096)
      \<le> length img"
    unfolding b using big by simp
  note e5 = unpack_bootstub_eval [OF f5 f5', unfolded b sl]
  show ?thesis
    unfolding unpack_def
    by (simp only: e1 e2 e3 e4 e5 option.case prod.case append.simps)
qed

text \<open>
  \<open>unpack\<close> on an image laid out as \<open>boot_image\<close> has it, when moreover the probe at
  the 4096-byte mark of the bootstub answers 1 for a bootstub of 8192 bytes and 0 for one
  of 4096.
\<close>

lemma unpack_boot_image:
  fixes isalnum :: "u8 \<Rightarrow> int"
  assumes len: "length hdr = 512" "length sg = S" "length cmdline = 1024" "length param = 8"
      "length filler = 3056" "length bootstub = B"
    and S: "S = 480 \<or> S = 728 \<or> S = 1024" and B: "B = 4096 \<or> B = 8192"
    and K: "500000 \<le> length kern" "length kern \<le> 15000000"
    and R: "10000 \<le> length ramdisk" "length ramdisk \<le> 300000000"
    and nul: "0 \<in> set cmdline"
    and img: "img = boot_image hdr sg cmdline param filler bootstub kern ramdisk"
    and p0: "probe isalnum img 0 4 1 = Some 0"
    and p1: "probe isalnum img 512 4 1 = Some 0"
    and p2: "480 < S \<Longrightarrow> probe isalnum img 992 4 1 = Some 0"
    and p3: "728 < S \<Longrightarrow> probe isalnum img 1240 4 1 = Some 0"
    and p4: "S < 1024 \<Longrightarrow> probe isalnum img (512 + S) 4 1 = Some 1"
    and p5: "probe isalnum img (512 + S + 8192) 2 0 = Some (if B = 8192 then 1 else 0)"
  shows "unpack isalnum filename (Some img) =
           Some \<lparr>ret = 0,
                 files = [(''hdr'', map Some hdr), (''sig'', map Some sg),
                          (''cmdline.txt'', map Some (takeWhile (\<lambda>b. b \<noteq> 0) cmdline)),
                          (''parameter'', map Some param), (''bootstub'', map Some bootstub),
                          (''kernel'', map Some kern), (''ramdisk.cpio.gz'', map Some ramdisk)],
                 stdout = [(''header size'', 512), (''sig size'', int S), (''bootstub size'', int B),
                           (''kernel size'', int (length kern)),
                           (''ramdisk size'', int (length ramdisk))],
                 stderr = []\<rparr>"
proof -
  define trail where "trail = replicate (pad512 (length (hdr @ sg @ cmdline @ le32 (length kern)
      @ le32 (length ramdisk) @ param @ filler @ bootstub @ kern @ ramdisk))) (0xFF :: u8)"
  define rest where "rest = bootstub @ kern @ ramdisk @ trail"
  have i: "img = hdr @ sg @ cmdline @ le32 (length kern) @ le32 (length ramdisk) @ param
                   @ filler @ rest"
    by (simp add: img boot_image_def Let_def trail_def rest_def)
  have l4: "length (le32 x) = 4" for x by (simp add: le32_def)
  have b: "B = (if probe isalnum img (512 + S + 8192) 2 0 = Some 1 then 8192 else 4096)"
    using B p5 by auto
  have r: "4098 \<le> length rest" "B \<le> length rest"
    using B K by (simp_all add: rest_def len)
  have tb: "take B rest = bootstub" by (simp add: rest_def len)
  have li: "length img = 512 + S + 4096 + B + length kern + length ramdisk + length trail"
    by (simp add: i len l4 rest_def)
  have kr: "uint32_le (map Some (le32 (length kern))) = Some (length kern)"
    "uint32_le (map Some (le32 (length ramdisk))) = Some (length ramdisk)"
    using K R by (simp_all add: uint32_le_le32)
  have f6: "512 + S + 1024 + 3072 + B + length kern + length ramdisk \<le> length img"
    using li by simp
  have sl8: "take (length kern) (drop (512 + S + 1024 + 3072 + B) img) = kern"
    "take (length ramdisk) (drop (512 + S + 1024 + 3072 + B + length kern) img) = ramdisk"
    by (simp_all add: i len l4 rest_def)
  note e6 = unpack_kernel_ramdisk_eval [OF kr K R f6, unfolded sl8]
  note u = unpack_layout [OF len(1-3) l4 l4 len(4,5) S nul i p0 p1 p2 p3 p4 b r,
      of filename, unfolded tb]
  show ?thesis
    apply (simp only: u)
    apply (simp only: e6 append.simps)
    done
qed

lemma probe_verdict:
  assumes "off + n \<le> length bytes" and "1 \<le> n"
  shows "probe isalnum bytes off (int n) mn = Some 1 \<or> probe isalnum bytes off (int n) mn = Some 0"
  using probe_window [OF assms, of isalnum mn] by (simp add: Let_def)

text \<open>
  \<open>unpack\<close> up to the bootstub on any stream long enough for all the reads before the
  kernel, with a NUL in its command-line region: the sizes of header, signature and
  bootstub as the probes decide them, and the files written.
\<close>

lemma unpack_eval:
  fixes isalnum :: "u8 \<Rightarrow> int"
  assumes long: "13824 \<le> length bytes"
    and H: "h = (if probe isalnum bytes 0 4 1 = Some 1 then 0 else 512 :: nat)"
    and G: "g = (if probe isalnum bytes h 4 1 = Some 1 then 0
                 else if probe isalnum bytes (h + 480) 4 1 = Some 1 then 480
                 else if probe isalnum bytes (h + 728) 4 1 = Some 1 then 728
                 else 1024 :: nat)"
    and B: "b = (if probe isalnum bytes (h + g + 8192) 2 0 = Some 1 then 8192 else 4096 :: nat)"
    and nul: "0 \<in> set (take 1024 (drop (h + g) bytes))"
  shows "unpack isalnum filename (Some bytes) =
           unpack_kernel_ramdisk (map Some (take 4 (drop (h + g + 1024) bytes)))
             (map Some (take 4 (drop (h + g + 1024 + 4) bytes)))
             \<lparr>strm = \<lparr>data = bytes, pos = h + g + 1024 + 3072 + b\<rparr>,
              written = (if h = 0 then [] else [(''hdr'', map Some (take 512 bytes))])
                 @ (if g = 0 then [] else [(''sig'', map Some (take g (drop h bytes)))])
                 @ [(''cmdline.txt'',
                     map Some (takeWhile (\<lambda>b. b \<noteq> 0) (take 1024 (drop (h + g) bytes)))),
                    (''parameter'', map Some (take 8 (drop (h + g + 1024 + 8) bytes))),
                    (''bootstub'', map Some (take b (drop (h + g + 1024 + 3072) bytes)))],
              printed = [(''header size'', int h), (''sig size'', int g),
                         (''bootstub size'', int b)]\<rparr>"
proof -
  have hb: "h \<le> 512" and gb: "g \<le> 1024" and bb: "b \<le> 8192"
    by (simp_all add: H G B)
  obtain v where v: "probe isalnum bytes 0 4 1 = Some v" and v01: "v = 1 \<or> v = 0"
    using probe_verdict [of 0 4 bytes isalnum 1] long by auto
  have hv: "h = (if v = 0 then 512 else 0)"
    using v v01 by (auto simp: H)
  have f0: "512 \<le> length bytes" using long by simp
  have e1: "unpack_hdr isalnum \<lparr>strm = \<lparr>data = bytes, pos = 0\<rparr>, written = [], printed = []\<rparr> =
              Some (int h, \<lparr>strm = \<lparr>data = bytes, pos = h\<rparr>,
                             written = (if h = 0 then [] else [(''hdr'', map Some (take 512 bytes))]),
                             printed = [(''header size'', int h)]\<rparr>)"
    using unpack_hdr_eval [OF f0 v] by (simp add: hv)
  have f2: "h + 1028 \<le> length bytes" using long hb by simp
  note e2 = unpack_sig_eval [OF f2, of isalnum, folded G]
  have f3: "h + g + 1024 \<le> length bytes" using long hb gb by simp
  note e3 = unpack_cmdline_eval [OF f3 nul]
  have f4: "h + g + 1024 + 16 \<le> length bytes" using long hb gb by simp
  note e4 = unpack_info_eval [OF f4]
  have o5: "h + g + 1024 + 3072 + 4096 = h + g + 8192" by simp
  have b: "(if probe isalnum bytes (h + g + 1024 + 3072 + 4096) 2 0 = Some 1 then 8192 else 4096 :: nat) = b"
    unfolding o5 B by simp
  have f5: "int (h + g + 1024 + 3072) = int h + int g + 4096"
    "h + g + 1024 + 3072 + 4098 \<le> length bytes"
    using long hb gb by simp_all
  have f5': "h + g + 1024 + 3072 +
      (if probe isalnum bytes (h + g + 1024 + 3072 + 4096) 2 0 = Some 1 then 8192 else 4096)
      \<le> length bytes"
    unfolding b using long hb gb bb by simp
  note e5 = unpack_bootstub_eval [OF f5 f5', unfolded b]
  show ?thesis
    unfolding unpack_def
    by (simp only: e1 e2 e3 e4 e5 option.case prod.case append.simps append_assoc)
qed

lemma write_buffer_total:
  "\<exists>f' out'. write_buffer f (int n) name out = Some (f', out')"
  by (simp add: write_buffer_def split: prod.splits)

lemma uint32_le_total:
  assumes "length bs = 4"
  shows "\<exists>n. uint32_le (map Some bs) = Some n"
proof -
  obtain b0 b1 b2 b3 where "bs = [b0, b1, b2, b3]"
    using assms by (auto simp: length_Suc_conv numeral_eq_Suc)
  then show ?thesis by (simp add: uint32_le_def)
qed

lemma unpack_kernel_ramdisk_total:
  assumes "length kb = 4" and "length rb = 4"
  shows "\<exists>r. unpack_kernel_ramdisk (map Some kb) (map Some rb) s = Some r"
proof -
  obtain ksz where k: "uint32_le (map Some kb) = Some ksz"
    using uint32_le_total [OF assms(1)] by blast
  obtain rsz where r: "uint32_le (map Some rb) = Some rsz"
    using uint32_le_total [OF assms(2)] by blast
  obtain f1 out1 where w1: "write_buffer (strm s) (int ksz) ''kernel'' (written s) = Some (f1, out1)"
    using write_buffer_total by blast
  obtain f2 out2 where w2: "write_buffer f1 (int rsz) ''ramdisk.cpio.gz'' out1 = Some (f2, out2)"
    using write_buffer_total by blast
  show ?thesis
    by (simp add: unpack_kernel_ramdisk_def k r w1 w2 Let_def)
qed

text \<open>
  The run of \<open>unpack\<close> is defined on every stream of at least 13824 bytes (a header, the
  longest signature, the 4096-byte block and the longer bootstub) that has a NUL in its
  command-line region.
\<close>

lemma unpack_defined:
  fixes isalnum :: "u8 \<Rightarrow> int"
  assumes long: "13824 \<le> length bytes"
    and H: "h = (if probe isalnum bytes 0 4 1 = Some 1 then 0 else 512 :: nat)"
    and G: "g = (if probe isalnum bytes h 4 1 = Some 1 then 0
                 else if probe isalnum bytes (h + 480) 4 1 = Some 1 then 480
                 else if probe isalnum bytes (h + 728) 4 1 = Some 1 then 728
                 else 1024 :: nat)"
    and nul: "0 \<in> set (take 1024 (drop (h + g) bytes))"
  shows "\<exists>r. unpack isalnum filename (Some bytes) = Some r"
proof -
  have "h \<le> 512" "g \<le> 1024" by (simp_all add: H G)
  then have l: "length (take 4 (drop (h + g + 1024) bytes)) = 4"
    "length (take 4 (drop (h + g + 1024 + 4) bytes)) = 4"
    using long by simp_all
  show ?thesis
    unfolding unpack_eval [OF long H G refl nul]
    by (rule unpack_kernel_ramdisk_total [OF l])
qed

section \<open>Runs of the Segment Locator on the sample images\<close>

lemma boot_image_regions:
  assumes "length hdr = 512" "length sg = S" "length cmdline = 1024" "length param = 8"
      "length filler = 3056" "length bootstub = B" "length kern = K" "length ramdisk = R"
    and "img = boot_image hdr sg cmdline param filler bootstub kern ramdisk"
    and "T = 512 + S + 4096 + B + K + R"
  shows "length img = T + pad512 T"
    and "i < 512 \<Longrightarrow> img ! i = hdr ! i"
    and "i < S \<Longrightarrow> img ! (512 + i) = sg ! i"
    and "i < 1024 \<Longrightarrow> img ! (512 + S + i) = cmdline ! i"
    and "i < 4 \<Longrightarrow> img ! (512 + S + 1024 + i) = le32 K ! i"
    and "i < 4 \<Longrightarrow> img ! (512 + S + 1028 + i) = le32 R ! i"
    and "i < 8 \<Longrightarrow> img ! (512 + S + 1032 + i) = param ! i"
    and "i < 3056 \<Longrightarrow> img ! (512 + S + 1040 + i) = filler ! i"
    and "i < B \<Longrightarrow> img ! (512 + S + 4096 + i) = bootstub ! i"
    and "i < K \<Longrightarrow> img ! (512 + S + 4096 + B + i) = kern ! i"
    and "i < R \<Longrightarrow> img ! (512 + S + 4096 + B + K + i) = ramdisk ! i"
    and "i < pad512 T \<Longrightarrow> img ! (T + i) = 0xFF"
proof -
  have l4: "length (le32 x) = 4" for x by (simp add: le32_def)
  have b: "length (hdr @ sg @ cmdline @ le32 (length kern) @ le32 (length ramdisk) @ param
                   @ filler @ bootstub @ kern @ ramdisk) = T"
    by (simp add: assms l4)
  have i: "img = hdr @ sg @ cmdline @ le32 K @ le32 R @ param @ filler @ bootstub @ kern
                  @ ramdisk @ replicate (pad512 T) 0xFF"
    unfolding assms(9) boot_image_def Let_def b by (simp add: assms)
  show "length img = T + pad512 T" by (simp add: i assms l4)
  show "i < 512 \<Longrightarrow> img ! i = hdr ! i" by (simp add: i assms nth_append)
  show "i < S \<Longrightarrow> img ! (512 + i) = sg ! i" by (simp add: i assms nth_append)
  show "i < 1024 \<Longrightarrow> img ! (512 + S + i) = cmdline ! i" by (simp add: i assms nth_append)
  show "i < 4 \<Longrightarrow> img ! (512 + S + 1024 + i) = le32 K ! i"
    by (simp add: i assms(1-8) l4 nth_append)
  show "i < 4 \<Longrightarrow> img ! (512 + S + 1028 + i) = le32 R ! i"
    by (simp add: i assms(1-8) l4 nth_append)
  show "i < 8 \<Longrightarrow> img ! (512 + S + 1032 + i) = param ! i"
    by (simp add: i assms(1-8) l4 nth_append)
  show "i < 3056 \<Longrightarrow> img ! (512 + S + 1040 + i) = filler ! i"
    by (simp add: i assms(1-8) l4 nth_append)
  show "i < B \<Longrightarrow> img ! (512 + S + 4096 + i) = bootstub ! i"
    by (simp add: i assms(1-8) l4 nth_append)
  show "i < K \<Longrightarrow> img ! (512 + S + 4096 + B + i) = kern ! i"
    by (simp add: i assms(1-8) l4 nth_append)
  show "i < R \<Longrightarrow> img ! (512 + S + 4096 + B + K + i) = ramdisk ! i"
    by (simp add: i assms(1-8) l4 nth_append)
  show "i < pad512 T \<Longrightarrow> img ! (T + i) = 0xFF"
    by (simp add: i assms(1-8,10) l4 nth_append)
qed

lemma sample_lengths:
  "length sample_hdr = 512" "length sample_sig = 728" "length sample_cmdline = 1024"
  "length sample_param = 8" "length sample_filler = 3056" "length sample_bootstub = 4096"
  "length sample_kernel = 500000" "length mz_kernel = 500000" "length sample_ramdisk = 10000"
  by (simp_all add: sample_hdr_def sample_sig_def sample_cmdline_def sample_param_def
      sample_filler_def sig_magic_def sample_bootstub_def sample_kernel_def mz_kernel_def
      sample_ramdisk_def)

text \<open>
  The probes of \<open>unpack\<close> on an image with the sample regions around a kernel of 500000
  bytes: the header starts with \<open>0x24\<close> and the signature holds \<open>0xFF\<close>, neither
  alphanumeric; the command line starts with a lower-case letter.
\<close>

lemma sample_probes:
  assumes k: "length kern = 500000"
    and img: "img = boot_image sample_hdr sample_sig sample_cmdline sample_param sample_filler
                      sample_bootstub kern sample_ramdisk"
  shows "probe isalnum_bsd img 0 4 1 = Some 0"
    and "probe isalnum_bsd img 512 4 1 = Some 0"
    and "probe isalnum_bsd img 992 4 1 = Some 0"
    and "probe isalnum_bsd img (512 + 728) 4 1 = Some 1"
    and "probe isalnum_bsd img (512 + 728 + 8192) 2 0 =
           Some (let t = (if kern ! 0 = 0 then kern ! 1 else kern ! 0); v = isalnum_bsd t
                 in if v > 0 \<and> v < 2 then 1 else 0)"
proof -
  note r = boot_image_regions [OF sample_lengths(1-6) k sample_lengths(9) img refl]
  have n: "519432 \<le> length img" using r(1) by simp
  have h: "img ! 0 = 0x24" using r(2) [of 0] by (simp add: sample_hdr_def)
  have s: "img ! 512 = 0xFF" "img ! 992 = 0xFF"
    using r(3) [of 0] r(3) [of 480] by (simp_all add: sample_sig_def)
  have c: "img ! 1240 = 0x61" using r(4) [of 0] by (simp add: sample_cmdline_def)
  have kn: "img ! 9432 = kern ! 0" "img ! 9433 = kern ! 1"
    using r(10) [of 0] r(10) [of 1] by simp_all
  show "probe isalnum_bsd img 0 4 1 = Some 0"
    using probe_window [of 0 4 img isalnum_bsd 1] n by (simp add: h isalnum_bsd_def)
  show "probe isalnum_bsd img 512 4 1 = Some 0"
    using probe_window [of 512 4 img isalnum_bsd 1] n by (simp add: s isalnum_bsd_def)
  show "probe isalnum_bsd img 992 4 1 = Some 0"
    using probe_window [of 992 4 img isalnum_bsd 1] n by (simp add: s isalnum_bsd_def)
  show "probe isalnum_bsd img (512 + 728) 4 1 = Some 1"
    using probe_window [of 1240 4 img isalnum_bsd 1] n by (simp add: c isalnum_bsd_def)
  show "probe isalnum_bsd img (512 + 728 + 8192) 2 0 =
           Some (let t = (if kern ! 0 = 0 then kern ! 1 else kern ! 0); v = isalnum_bsd t
                 in if v > 0 \<and> v < 2 then 1 else 0)"
    using probe_window [of 9432 2 img isalnum_bsd 0] n by (simp add: kn)
qed

lemma sample_cmdline_text:
  "0 \<in> set sample_cmdline" "takeWhile (\<lambda>b. b \<noteq> 0) sample_cmdline = [0x61, 0x62, 0x63]"
  by (simp_all add: sample_cmdline_def)

lemma unpack_sample_image:
  "unpack isalnum_bsd ''boot.img'' (Some sample_image) = Some sample_run"
proof -
  note p = sample_probes [OF sample_lengths(7) sample_image_def]
  have p5: "probe isalnum_bsd sample_image (512 + 728 + 8192) 2 0 =
              Some (if (4096 :: nat) = 8192 then 1 else 0)"
    unfolding p(5) by (simp add: sample_kernel_def isalnum_bsd_def)
  have u: "unpack isalnum_bsd ''boot.img'' (Some sample_image) =
     Some \<lparr>ret = 0,
           files = [(''hdr'', map Some sample_hdr), (''sig'', map Some sample_sig),
                    (''cmdline.txt'', map Some (takeWhile (\<lambda>b. b \<noteq> 0) sample_cmdline)),
                    (''parameter'', map Some sample_param),
                    (''bootstub'', map Some sample_bootstub),
                    (''kernel'', map Some sample_kernel),
                    (''ramdisk.cpio.gz'', map Some sample_ramdisk)],
           stdout = [(''header size'', 512), (''sig size'', int 728), (''bootstub size'', int 4096),
                     (''kernel size'', int (length sample_kernel)),
                     (''ramdisk size'', int (length sample_ramdisk))],
           stderr = []\<rparr>"
    by (rule unpack_boot_image [OF sample_lengths(1-6) _ _ _ _ _ _ sample_cmdline_text(1)
          sample_image_def p(1,2) _ _ _ p5])
       (use p(3,4) in \<open>simp_all add: sample_lengths\<close>)
  show ?thesis
    unfolding u sample_run_def by (simp add: sample_lengths sample_cmdline_text)
qed

lemma sample_image_slices:
  "519432 \<le> length sample_image"
  "take 512 sample_image = sample_hdr"
  "take 1024 (drop 1240 sample_image) = sample_cmdline"
proof -
  note r = boot_image_regions(1) [OF sample_lengths(1-7,9) sample_image_def refl]
  show "519432 \<le> length sample_image" using r by simp
  show "take 512 sample_image = sample_hdr"
    by (simp add: sample_image_def boot_image_def Let_def sample_lengths)
  show "take 1024 (drop 1240 sample_image) = sample_cmdline"
    by (simp add: sample_image_def boot_image_def Let_def sample_lengths)
qed

lemma sample_run_reported:
  "reported sample_run ''header size'' = Some 512"
  "reported sample_run ''sig size'' = Some 728"
  "reported sample_run ''bootstub size'' = Some 4096"
  by (simp_all add: reported_def sample_run_def)

text \<open>
  The run on \<open>bare_image\<close>, which starts with its command line: the probe at offset 0
  answers 1, and neither a header nor a signature is written.
\<close>

lemma bare_image_cells:
  "length bare_image = 518192"
  "bare_image ! 0 = 0x61"
  "bare_image ! 8192 = 0x1F"
  "take 1024 bare_image = sample_cmdline"
  "take 4 (drop 1024 bare_image) = le32 500000"
  "take 4 (drop 1028 bare_image) = le32 10000"
  "take 8 (drop 1032 bare_image) = sample_param"
  "take 4096 (drop 4096 bare_image) = sample_bootstub"
  "take 500000 (drop 8192 bare_image) = sample_kernel"
  "take 10000 (drop 508192 bare_image) = sample_ramdisk"
proof -
  have l4: "length (le32 x) = 4" for x by (simp add: le32_def)
  show "length bare_image = 518192" by (simp add: bare_image_def sample_lengths l4)
  show "bare_image ! 0 = 0x61" by (simp add: bare_image_def sample_cmdline_def)
  show "bare_image ! 8192 = 0x1F"
    by (simp add: bare_image_def nth_append sample_lengths l4) (simp add: sample_kernel_def)
  show "take 1024 bare_image = sample_cmdline" by (simp add: bare_image_def sample_lengths)
  show "take 4 (drop 1024 bare_image) = le32 500000"
    by (simp add: bare_image_def sample_lengths l4)
  show "take 4 (drop 1028 bare_image) = le32 10000"
    by (simp add: bare_image_def sample_lengths l4)
  show "take 8 (drop 1032 bare_image) = sample_param"
    by (simp add: bare_image_def sample_lengths l4)
  show "take 4096 (drop 4096 bare_image) = sample_bootstub"
    by (simp add: bare_image_def sample_lengths l4)
  show "take 500000 (drop 8192 bare_image) = sample_kernel"
    by (simp add: bare_image_def sample_lengths l4)
  show "take 10000 (drop 508192 bare_image) = sample_ramdisk"
    by (simp add: bare_image_def sample_lengths l4)
qed

lemma bare_image_probes:
  "probe isalnum_bsd bare_image 0 4 1 = Some 1"
  "probe isalnum_bsd bare_image 8192 2 0 = Some 0"
  using probe_window [of 0 4 bare_image isalnum_bsd 1]
    probe_window [of 8192 2 bare_image isalnum_bsd 0]
  by (simp_all add: bare_image_cells isalnum_bsd_def)

lemma unpack_bare_image:
  "unpack isalnum_bsd ''boot.img'' (Some bare_image) = Some bare_run"
proof -
  have long: "13824 \<le> length bare_image" by (simp add: bare_image_cells)
  have H: "(0 :: nat) = (if probe isalnum_bsd bare_image 0 4 1 = Some 1 then 0 else 512)"
    by (simp add: bare_image_probes)
  have G: "(0 :: nat) = (if probe isalnum_bsd bare_image 0 4 1 = Some 1 then 0
                 else if probe isalnum_bsd bare_image (0 + 480) 4 1 = Some 1 then 480
                 else if probe isalnum_bsd bare_image (0 + 728) 4 1 = Some 1 then 728
                 else 1024)"
    by (simp add: bare_image_probes)
  have B: "(4096 :: nat) = (if probe isalnum_bsd bare_image (0 + 0 + 8192) 2 0 = Some 1
                 then 8192 else 4096)"
    by (simp add: bare_image_probes)
  have nul: "0 \<in> set (take 1024 (drop (0 + 0) bare_image))"
    by (simp add: bare_image_cells sample_cmdline_text)
  note u = unpack_eval [OF long H G B nul, of "''boot.img''", simplified]
  have z: "uint32_le (map Some (le32 500000)) = Some 500000"
    "uint32_le (map Some (le32 10000)) = Some 10000"
    by (simp_all add: uint32_le_le32)
  have n: "8192 + 500000 + 10000 \<le> length bare_image" by (simp add: bare_image_cells)
  note e = unpack_kernel_ramdisk_eval [OF z _ _ _ _ n, simplified]
  show ?thesis
    unfolding u by (simp add: bare_image_cells sample_cmdline_text e bare_run_def)
qed

text \<open>
  The runs on \<open>sample_image\<close>, where the probe at offset 0 returns 0 and the header is
  written, and on \<open>bare_image\<close>, where it returns 1 and no header is written.
\<close>

theorem unpack_header_presence_witness:
  "unpack isalnum_bsd ''boot.img'' (Some sample_image) = Some sample_run
   \<and> 512 \<le> length sample_image
   \<and> probe isalnum_bsd sample_image 0 4 1 = Some 0
   \<and> reported sample_run ''header size'' = Some 512
   \<and> emitted sample_run ''hdr'' = Some (map Some sample_hdr)
   \<and> unpack isalnum_bsd ''boot.img'' (Some bare_image) = Some bare_run
   \<and> 512 \<le> length bare_image
   \<and> probe isalnum_bsd bare_image 0 4 1 = Some 1
   \<and> reported bare_run ''header size'' = Some 0
   \<and> emitted bare_run ''hdr'' = None"
  using unpack_header_presence [OF unpack_sample_image]
    unpack_header_presence [OF unpack_bare_image]
    sample_probes(1) [OF sample_lengths(7) sample_image_def] sample_image_slices
    unpack_sample_image unpack_bare_image bare_image_probes(1) bare_image_cells(1)
  by simp

text \<open>A negative probe at offset 0, and a run that writes the 512 bytes of the header.\<close>

theorem unpack_header_on_negative_probe:
  "unpack isalnum_bsd ''boot.img'' (Some sample_image) = Some sample_run
   \<and> probe isalnum_bsd sample_image 0 4 1 = Some 0
   \<and> reported sample_run ''header size'' = Some 512
   \<and> emitted sample_run ''hdr'' = Some (map Some sample_hdr)
   \<and> length sample_hdr = 512"
  using sample_probes(1) [OF sample_lengths(7) sample_image_def] unpack_sample_image
  by (simp add: sample_run_reported sample_lengths) (simp add: emitted_def sample_run_def)

text \<open>
  The runs on \<open>sample_image\<close>, whose signature has 728 bytes, and on \<open>bare_image\<close>,
  which has none.
\<close>

theorem unpack_signature_size_witness:
  "unpack isalnum_bsd ''boot.img'' (Some sample_image) = Some sample_run
   \<and> 1540 \<le> length sample_image
   \<and> reported sample_run ''sig size'' = Some 728
   \<and> emitted sample_run ''sig'' = Some (map Some sample_sig)
   \<and> unpack isalnum_bsd ''boot.img'' (Some bare_image) = Some bare_run
   \<and> 1540 \<le> length bare_image
   \<and> reported bare_run ''sig size'' = Some 0
   \<and> emitted bare_run ''sig'' = None"
proof -
  have b: "reported bare_run ''sig size'' = Some 0"
    by (simp add: reported_def bare_run_def)
  show ?thesis
    using unpack_signature_size [OF unpack_sample_image]
      unpack_signature_size [OF unpack_bare_image]
      sample_image_slices(1) unpack_sample_image unpack_bare_image bare_image_cells(1)
    by (simp add: sample_run_reported b) (simp add: emitted_def sample_run_def)
qed

text \<open>A signature size that is none of 0, 480, 248 and 296.\<close>

theorem unpack_signature_of_728_bytes:
  "unpack isalnum_bsd ''boot.img'' (Some sample_image) = Some sample_run
   \<and> reported sample_run ''sig size'' = Some 728
   \<and> (728 :: int) \<notin> {0, 480, 248, 296}"
  using unpack_sample_image by (simp add: sample_run_reported)

text \<open>The run on \<open>sample_image\<close>, whose command line starts at offset 512 + 728 = 1240.\<close>

theorem unpack_cmdline_text_witness:
  "unpack isalnum_bsd ''boot.img'' (Some sample_image) = Some sample_run
   \<and> reported sample_run ''header size'' = Some 512
   \<and> reported sample_run ''sig size'' = Some 728
   \<and> nat (512 + 728) \<le> length sample_image
   \<and> emitted sample_run ''cmdline.txt'' = Some (map Some [0x61, 0x62, 0x63])
   \<and> 0 \<in> set (take 1024 (drop 1240 sample_image))"
  using unpack_cmdline_text [OF unpack_sample_image sample_run_reported(1,2)]
    sample_image_slices unpack_sample_image
  by (simp add: sample_run_reported sample_cmdline_text)

text \<open>A command-line region of 1024 bytes, and a \<^verbatim>\<open>cmdline.txt\<close> file of 3 bytes.\<close>

theorem unpack_cmdline_text_three_bytes:
  "unpack isalnum_bsd ''boot.img'' (Some sample_image) = Some sample_run
   \<and> reported sample_run ''header size'' = Some 512
   \<and> reported sample_run ''sig size'' = Some 728
   \<and> take 1024 (drop (512 + 728) sample_image) = [0x61, 0x62, 0x63] @ replicate 1021 0
   \<and> emitted sample_run ''cmdline.txt'' = Some [Some 0x61, Some 0x62, Some 0x63]"
  using unpack_sample_image sample_image_slices(3)
  by (simp add: sample_run_reported sample_cmdline_def) (simp add: emitted_def sample_run_def)




text \<open>
  The run on \<open>bad_size_image\<close>, whose kernel-size field holds 499999: it stops at line 156.
\<close>

lemma unpack_bad_size_image:
  "unpack isalnum_bsd ''boot.img'' (Some bad_size_image) = Some bad_size_run"
proof -
  have l4: "length (le32 x) = 4" for x by (simp add: le32_def)
  define rest where "rest = sample_bootstub @ [0x1F, 0x8B :: u8]"
  have i: "bad_size_image = sample_hdr @ sample_sig @ sample_cmdline @ le32 499999 @ le32 10000
                      @ sample_param @ sample_filler @ rest"
    by (simp add: bad_size_image_def rest_def)
  have n: "length bad_size_image = 9434"
    by (simp add: i rest_def sample_lengths l4)
  have h: "bad_size_image ! 0 = 0x24" by (simp add: i sample_hdr_def)
  have s: "bad_size_image ! 512 = 0xFF" "bad_size_image ! 992 = 0xFF"
    by (simp_all add: i nth_append sample_lengths) (simp_all add: sample_sig_def)
  have c: "bad_size_image ! 1240 = 0x61"
    by (simp add: i nth_append sample_lengths) (simp add: sample_cmdline_def)
  have k: "bad_size_image ! 9432 = 0x1F"
    by (simp add: i rest_def nth_append sample_lengths l4)
  have p: "probe isalnum_bsd bad_size_image 0 4 1 = Some 0"
    "probe isalnum_bsd bad_size_image 512 4 1 = Some 0"
    "probe isalnum_bsd bad_size_image 992 4 1 = Some 0"
    "probe isalnum_bsd bad_size_image (512 + 728) 4 1 = Some 1"
    "probe isalnum_bsd bad_size_image (512 + 728 + 8192) 2 0 = Some 0"
    using probe_window [of 0 4 bad_size_image isalnum_bsd 1]
      probe_window [of 512 4 bad_size_image isalnum_bsd 1]
      probe_window [of 992 4 bad_size_image isalnum_bsd 1]
      probe_window [of 1240 4 bad_size_image isalnum_bsd 1]
      probe_window [of 9432 2 bad_size_image isalnum_bsd 0]
    by (simp_all add: n h s c k isalnum_bsd_def)
  have b: "(4096 :: nat) =
      (if probe isalnum_bsd bad_size_image (512 + 728 + 8192) 2 0 = Some 1 then 8192 else 4096)"
    unfolding p(5) by simp
  have r: "4098 \<le> length rest" "4096 \<le> length rest" "take 4096 rest = sample_bootstub"
    by (simp_all add: rest_def sample_lengths)
  have u: "unpack isalnum_bsd ''boot.img'' (Some bad_size_image) =
           unpack_kernel_ramdisk (map Some (le32 499999)) (map Some (le32 10000))
             \<lparr>strm = \<lparr>data = bad_size_image, pos = 512 + 728 + 1024 + 3072 + 4096\<rparr>,
              written = [(''hdr'', map Some sample_hdr), (''sig'', map Some sample_sig),
                         (''cmdline.txt'', map Some (takeWhile (\<lambda>b. b \<noteq> 0) sample_cmdline)),
                         (''parameter'', map Some sample_param),
                         (''bootstub'', map Some (take 4096 rest))],
              printed = [(''header size'', 512), (''sig size'', int 728),
                         (''bootstub size'', int 4096)]\<rparr>"
    by (rule unpack_layout [OF sample_lengths(1-3) l4 l4 sample_lengths(4,5) _
          sample_cmdline_text(1) i p(1,2) _ _ _ b r(1,2)])
       (use p(3,4) in simp_all)
  have z: "uint32_le (map Some (le32 499999)) = Some 499999"
    by (simp add: uint32_le_le32)
  show ?thesis
    unfolding u r(3)
    by (simp add: unpack_kernel_ramdisk_def z bad_size_run_def sample_cmdline_text)
qed

lemma bad_size_image_fields:
  "2264 + 8 \<le> length bad_size_image"
  "uint32_le (map Some (take 4 (drop 2264 bad_size_image))) = Some 499999"
  "uint32_le (map Some (take 4 (drop (2264 + 4) bad_size_image))) = Some 10000"
proof -
  have l4: "length (le32 x) = 4" for x by (simp add: le32_def)
  show "2264 + 8 \<le> length bad_size_image"
    by (simp add: bad_size_image_def sample_lengths l4)
  have "take 4 (drop 2264 bad_size_image) = le32 499999"
    by (simp add: bad_size_image_def sample_lengths l4)
  then show "uint32_le (map Some (take 4 (drop 2264 bad_size_image))) = Some 499999"
    by (simp add: uint32_le_le32)
  have "take 4 (drop (2264 + 4) bad_size_image) = le32 10000"
    by (simp add: bad_size_image_def sample_lengths l4)
  then show "uint32_le (map Some (take 4 (drop (2264 + 4) bad_size_image))) = Some 10000"
    by (simp add: uint32_le_le32)
qed

lemma bad_size_run_reported:
  "reported bad_size_run ''header size'' = Some 512"
  "reported bad_size_run ''sig size'' = Some 728"
  by (simp_all add: reported_def bad_size_run_def)

text \<open>
  The run on \<open>bad_ramdisk_image\<close>, whose ramdisk-size field holds 9999: it writes the
  kernel and stops at line 164.
\<close>

lemma unpack_bad_ramdisk_image:
  "unpack isalnum_bsd ''boot.img'' (Some bad_ramdisk_image) = Some bad_ramdisk_run"
proof -
  have l4: "length (le32 x) = 4" for x by (simp add: le32_def)
  define rest where "rest = sample_bootstub @ sample_kernel"
  have i: "bad_ramdisk_image = sample_hdr @ sample_sig @ sample_cmdline @ le32 500000 @ le32 9999
                      @ sample_param @ sample_filler @ rest"
    by (simp add: bad_ramdisk_image_def rest_def)
  have n: "length bad_ramdisk_image = 509432"
    by (simp add: i rest_def sample_lengths l4)
  have h: "bad_ramdisk_image ! 0 = 0x24" by (simp add: i sample_hdr_def)
  have s: "bad_ramdisk_image ! 512 = 0xFF" "bad_ramdisk_image ! 992 = 0xFF"
    by (simp_all add: i nth_append sample_lengths) (simp_all add: sample_sig_def)
  have c: "bad_ramdisk_image ! 1240 = 0x61"
    by (simp add: i nth_append sample_lengths) (simp add: sample_cmdline_def)
  have k: "bad_ramdisk_image ! 9432 = 0x1F"
    by (simp add: i rest_def nth_append sample_lengths l4) (simp add: sample_kernel_def)
  have p: "probe isalnum_bsd bad_ramdisk_image 0 4 1 = Some 0"
    "probe isalnum_bsd bad_ramdisk_image 512 4 1 = Some 0"
    "probe isalnum_bsd bad_ramdisk_image 992 4 1 = Some 0"
    "probe isalnum_bsd bad_ramdisk_image (512 + 728) 4 1 = Some 1"
    "probe isalnum_bsd bad_ramdisk_image (512 + 728 + 8192) 2 0 = Some 0"
    using probe_window [of 0 4 bad_ramdisk_image isalnum_bsd 1]
      probe_window [of 512 4 bad_ramdisk_image isalnum_bsd 1]
      probe_window [of 992 4 bad_ramdisk_image isalnum_bsd 1]
      probe_window [of 1240 4 bad_ramdisk_image isalnum_bsd 1]
      probe_window [of 9432 2 bad_ramdisk_image isalnum_bsd 0]
    by (simp_all add: n h s c k isalnum_bsd_def)
  have b: "(4096 :: nat) =
      (if probe isalnum_bsd bad_ramdisk_image (512 + 728 + 8192) 2 0 = Some 1 then 8192 else 4096)"
    unfolding p(5) by simp
  have r: "4098 \<le> length rest" "4096 \<le> length rest" "take 4096 rest = sample_bootstub"
    by (simp_all add: rest_def sample_lengths)
  have u: "unpack isalnum_bsd ''boot.img'' (Some bad_ramdisk_image) =
           unpack_kernel_ramdisk (map Some (le32 500000)) (map Some (le32 9999))
             \<lparr>strm = \<lparr>data = bad_ramdisk_image, pos = 512 + 728 + 1024 + 3072 + 4096\<rparr>,
              written = [(''hdr'', map Some sample_hdr), (''sig'', map Some sample_sig),
                         (''cmdline.txt'', map Some (takeWhile (\<lambda>b. b \<noteq> 0) sample_cmdline)),
                         (''parameter'', map Some sample_param),
                         (''bootstub'', map Some (take 4096 rest))],
              printed = [(''header size'', 512), (''sig size'', int 728),
                         (''bootstub size'', int 4096)]\<rparr>"
    by (rule unpack_layout [OF sample_lengths(1-3) l4 l4 sample_lengths(4,5) _
          sample_cmdline_text(1) i p(1,2) _ _ _ b r(1,2)])
       (use p(3,4) in simp_all)
  have z: "uint32_le (map Some (le32 500000)) = Some 500000"
    "uint32_le (map Some (le32 9999)) = Some 9999"
    by (simp_all add: uint32_le_le32)
  have f: "9432 + 500000 \<le> length bad_ramdisk_image" by (simp add: n)
  note w = write_buffer_full [OF f, simplified]
  have t: "take 500000 (drop 9432 bad_ramdisk_image) = sample_kernel"
    by (simp add: i rest_def sample_lengths l4)
  show ?thesis
    unfolding u r(3)
    by (simp add: unpack_kernel_ramdisk_def z w t bad_ramdisk_run_def sample_cmdline_text)
qed

lemma bad_ramdisk_image_fields:
  "2264 + 8 \<le> length bad_ramdisk_image"
  "uint32_le (map Some (take 4 (drop 2264 bad_ramdisk_image))) = Some 500000"
  "uint32_le (map Some (take 4 (drop (2264 + 4) bad_ramdisk_image))) = Some 9999"
proof -
  have l4: "length (le32 x) = 4" for x by (simp add: le32_def)
  show "2264 + 8 \<le> length bad_ramdisk_image"
    by (simp add: bad_ramdisk_image_def sample_lengths l4)
  have "take 4 (drop 2264 bad_ramdisk_image) = le32 500000"
    by (simp add: bad_ramdisk_image_def sample_lengths l4)
  then show "uint32_le (map Some (take 4 (drop 2264 bad_ramdisk_image))) = Some 500000"
    by (simp add: uint32_le_le32)
  have "take 4 (drop (2264 + 4) bad_ramdisk_image) = le32 9999"
    by (simp add: bad_ramdisk_image_def sample_lengths l4)
  then show "uint32_le (map Some (take 4 (drop (2264 + 4) bad_ramdisk_image))) = Some 9999"
    by (simp add: uint32_le_le32)
qed

lemma bad_ramdisk_run_reported:
  "reported bad_ramdisk_run ''header size'' = Some 512"
  "reported bad_ramdisk_run ''sig size'' = Some 728"
  by (simp_all add: reported_def bad_ramdisk_run_def)

text \<open>
  The runs on \<open>bad_size_image\<close> and on \<open>bad_ramdisk_image\<close>, with the size fields at
  offset 1240 + 1024 = 2264.
\<close>

theorem unpack_size_range_errors_witness:
  "unpack isalnum_bsd ''boot.img'' (Some bad_size_image) = Some bad_size_run
   \<and> reported bad_size_run ''header size'' = Some 512
   \<and> reported bad_size_run ''sig size'' = Some 728
   \<and> 2264 + 8 \<le> length bad_size_image
   \<and> uint32_le (map Some (take 4 (drop 2264 bad_size_image))) = Some 499999
   \<and> uint32_le (map Some (take 4 (drop (2264 + 4) bad_size_image))) = Some 10000
   \<and> ret bad_size_run = 1 \<and> stderr bad_size_run = [Kernel_size_wrong]
   \<and> emitted bad_size_run ''kernel'' = None
   \<and> emitted bad_size_run ''ramdisk.cpio.gz'' = None
   \<and> unpack isalnum_bsd ''boot.img'' (Some bad_ramdisk_image) = Some bad_ramdisk_run
   \<and> reported bad_ramdisk_run ''header size'' = Some 512
   \<and> reported bad_ramdisk_run ''sig size'' = Some 728
   \<and> 2264 + 8 \<le> length bad_ramdisk_image
   \<and> uint32_le (map Some (take 4 (drop 2264 bad_ramdisk_image))) = Some 500000
   \<and> uint32_le (map Some (take 4 (drop (2264 + 4) bad_ramdisk_image))) = Some 9999
   \<and> ret bad_ramdisk_run = 1 \<and> stderr bad_ramdisk_run = [Ramdisk_size_wrong]
   \<and> emitted bad_ramdisk_run ''ramdisk.cpio.gz'' = None"
  using unpack_size_range_errors [OF unpack_bad_size_image bad_size_run_reported _
      bad_size_image_fields]
    unpack_size_range_errors [OF unpack_bad_ramdisk_image bad_ramdisk_run_reported _
      bad_ramdisk_image_fields]
    unpack_bad_size_image bad_size_run_reported bad_size_image_fields
    unpack_bad_ramdisk_image bad_ramdisk_run_reported bad_ramdisk_image_fields
  by simp

section \<open>The round trip\<close>








end
